theory Spec2Isabelle
  imports Main "HOL-Library.AList" "HOL-Library.Multiset"
begin

section \<open>JavaScript values and strings\<close>

text \<open>
  Payloads, handler results and metadata values are JavaScript values (\<open>unknown\<close> in the
  TypeScript source). An object is the list of its own enumerable string-keyed properties
  in the order \<open>Object.entries\<close> enumerates them. Numbers are restricted to integers.
  A string is the sequence of its UTF-8 bytes.
\<close>

datatype js_value =
    JUndefined
  | JNull
  | JBool bool
  | JNum int
  | JStr string
  | JArr "js_value list"
  | JObj "(string \<times> js_value) list"

type_synonym entries = "(string \<times> js_value) list"

subsection \<open>Decimal rendering of numbers in template strings\<close>

definition digit_char :: "nat \<Rightarrow> char" where
  "digit_char d = ''0123456789'' ! d"

function show_digits :: "int \<Rightarrow> string" where
  "show_digits n =
     (if n < 10 then [digit_char (nat n)]
      else show_digits (n div 10) @ [digit_char (nat (n mod 10))])"
  by pat_completeness auto
termination
  by (relation "measure nat") auto

declare show_digits.simps [simp del]

definition show_int :: "int \<Rightarrow> string" where
  "show_int i = (if i < 0 then CHR ''-'' # show_digits (- i) else show_digits i)"

subsection \<open>\<open>Date.now\<close> and \<open>Date.prototype.toISOString\<close>\<close>

text \<open>
  A time is the number of milliseconds since the epoch, as \<open>Date.now()\<close> reads it.
  \<open>toISOString\<close> writes it in UTC: the date of the day number in the proleptic
  Gregorian calendar, a year outside 0 to 9999 with a sign and six digits.
\<close>

definition pad :: "nat \<Rightarrow> int \<Rightarrow> string" where
  "pad width n = replicate (width - length (show_digits n)) CHR ''0'' @ show_digits n"

definition civil_from_days :: "int \<Rightarrow> int \<times> int \<times> int" where
  "civil_from_days day =
     (let z = day + 719468;
          era = z div 146097;
          doe = z mod 146097;
          yoe = (doe - doe div 1460 + doe div 36524 - doe div 146096) div 365;
          doy = doe - (365 * yoe + yoe div 4 - yoe div 100);
          mp = (5 * doy + 2) div 153;
          d = doy - (153 * mp + 2) div 5 + 1;
          m = (if mp < 10 then mp + 3 else mp - 9);
          y = yoe + era * 400 + (if m \<le> 2 then 1 else 0)
      in (y, m, d))"

definition toISOString :: "int \<Rightarrow> string" where
  "toISOString ms =
     (let t = ms mod 86400000;
          (y, m, d) = civil_from_days (ms div 86400000)
      in (if 0 \<le> y \<and> y \<le> 9999 then pad 4 y
          else (if y < 0 then ''-'' else ''+'') @ pad 6 (abs y))
         @ ''-'' @ pad 2 m @ ''-'' @ pad 2 d @ ''T'' @ pad 2 (t div 3600000) @ '':''
         @ pad 2 (t mod 3600000 div 60000) @ '':'' @ pad 2 (t mod 60000 div 1000) @ ''.''
         @ pad 3 (t mod 1000) @ ''Z'')"

subsection \<open>\<open>String.prototype.trim\<close>\<close>

text \<open>
  The white space and line terminator code points that \<open>trim\<close> removes, as UTF-8:
  U+0009 to U+000D, U+0020, U+00A0, U+1680, U+2000 to U+200A, U+2028, U+2029, U+202F,
  U+205F, U+3000 and U+FEFF.
\<close>

definition white_space :: "string list" where
  "white_space =
     [[CHR 0x09], [CHR 0x0A], [CHR 0x0B], [CHR 0x0C], [CHR 0x0D], [CHR 0x20],
      [CHR 0xC2, CHR 0xA0], [CHR 0xE1, CHR 0x9A, CHR 0x80],
      [CHR 0xE2, CHR 0x80, CHR 0x80], [CHR 0xE2, CHR 0x80, CHR 0x81],
      [CHR 0xE2, CHR 0x80, CHR 0x82], [CHR 0xE2, CHR 0x80, CHR 0x83],
      [CHR 0xE2, CHR 0x80, CHR 0x84], [CHR 0xE2, CHR 0x80, CHR 0x85],
      [CHR 0xE2, CHR 0x80, CHR 0x86], [CHR 0xE2, CHR 0x80, CHR 0x87],
      [CHR 0xE2, CHR 0x80, CHR 0x88], [CHR 0xE2, CHR 0x80, CHR 0x89],
      [CHR 0xE2, CHR 0x80, CHR 0x8A], [CHR 0xE2, CHR 0x80, CHR 0xA8],
      [CHR 0xE2, CHR 0x80, CHR 0xA9], [CHR 0xE2, CHR 0x80, CHR 0xAF],
      [CHR 0xE2, CHR 0x81, CHR 0x9F], [CHR 0xE3, CHR 0x80, CHR 0x80],
      [CHR 0xEF, CHR 0xBB, CHR 0xBF]]"

definition lead_length :: "string list \<Rightarrow> string \<Rightarrow> nat" where
  "lead_length ps s =
     (case find (\<lambda>p. take (length p) s = p) ps of None \<Rightarrow> 0 | Some p \<Rightarrow> length p)"

function strip :: "string list \<Rightarrow> string \<Rightarrow> string" where
  "strip ps s = (if s = [] \<or> lead_length ps s = 0 then s else strip ps (drop (lead_length ps s) s))"
  by pat_completeness auto
termination
  by (relation "measure (\<lambda>(ps, s). length s)") auto

declare strip.simps [simp del]

definition trim :: "string \<Rightarrow> string" where
  "trim s = rev (strip (map rev white_space) (rev (strip white_space s)))"

subsection \<open>Property order of ordinary objects\<close>

text \<open>
  An ordinary object enumerates its array-index keys first, in ascending numeric order,
  and then its other string keys in the order they were created. An array index is the
  canonical decimal rendering of an integer below \<open>2^32 - 1\<close>.
\<close>

definition is_digit :: "char \<Rightarrow> bool" where
  "is_digit c = (48 \<le> (of_char c :: nat) \<and> (of_char c :: nat) \<le> 57)"

definition digits_value :: "string \<Rightarrow> int" where
  "digits_value s = foldl (\<lambda>acc c. 10 * acc + ((of_char c :: int) - 48)) 0 s"

definition is_array_index :: "string \<Rightarrow> bool" where
  "is_array_index k =
     (k \<noteq> [] \<and> list_all is_digit k \<and> (k = ''0'' \<or> hd k \<noteq> CHR ''0'')
      \<and> length k \<le> 10 \<and> digits_value k < 4294967295)"

definition own_property_order :: "(string \<times> 'v) list \<Rightarrow> (string \<times> 'v) list" where
  "own_property_order es =
     sort_key (\<lambda>e. digits_value (fst e)) (filter (\<lambda>e. is_array_index (fst e)) es)
     @ filter (\<lambda>e. \<not> is_array_index (fst e)) es"

text \<open>
  \<open>Object.fromEntries\<close>: the entries are defined one after the other on a fresh object
  (a later entry with the same key overwrites the value and keeps the position), and the
  object is then read in its property order.
\<close>

definition fromEntries :: "(string \<times> 'v) list \<Rightarrow> (string \<times> 'v) list" where
  "fromEntries es = own_property_order (fold (\<lambda>e obj. AList.update (fst e) (snd e) obj) es [])"

subsection \<open>\<open>Array.prototype.sort\<close> with a comparator\<close>

text \<open>
  The sort is stable: of two elements the comparator does not put in the other order,
  the one that came first stays first. It is modelled as insertion from the right.
\<close>

fun sort_insert :: "('a \<Rightarrow> 'a \<Rightarrow> int) \<Rightarrow> 'a \<Rightarrow> 'a list \<Rightarrow> 'a list" where
  "sort_insert cf x [] = [x]"
| "sort_insert cf x (y # ys) = (if cf x y \<le> 0 then x # y # ys else y # sort_insert cf x ys)"

definition array_sort :: "('a \<Rightarrow> 'a \<Rightarrow> int) \<Rightarrow> 'a list \<Rightarrow> 'a list" where
  "array_sort cf xs = foldr (sort_insert cf) xs []"

section \<open>Errors (errors.ts)\<close>

datatype error_class =
    PlainError
  | IdempotencyError
  | InvalidIdempotencyKeyError
  | FingerprintMismatchError
  | OperationInProgressError
  | LockAcquisitionError
  | InvalidRetentionError
  | OnAuditRequiredError
  | IdempotencyInternalError
  | HandlerTimeoutError

text \<open>
  What a \<open>throw\<close> or a rejected promise carries: an \<open>Error\<close> object with the fields the
  classes of errors.ts set, or any other value, kept as the text \<open>String(err)\<close> gives.
\<close>

datatype thrown =
    ErrorObj (err_class: error_class) (err_name: string) (err_message: string)
             (err_status: "nat option") (err_code: "string option")
             (err_storedFingerprint: "string option") (err_cause: "thrown option")
  | NonError string

definition new_Error :: "string \<Rightarrow> thrown" where
  "new_Error msg = ErrorObj PlainError ''Error'' msg None None None None"

definition new_InvalidIdempotencyKeyError :: "string \<Rightarrow> thrown" where
  "new_InvalidIdempotencyKeyError msg =
     ErrorObj InvalidIdempotencyKeyError ''InvalidIdempotencyKeyError'' msg
       (Some 400) (Some ''IDEMPOTENCY_KEY_REQUIRED'') None None"

definition new_FingerprintMismatchError :: "string \<Rightarrow> string option \<Rightarrow> thrown" where
  "new_FingerprintMismatchError msg storedFingerprint =
     ErrorObj FingerprintMismatchError ''FingerprintMismatchError'' msg
       (Some 422) (Some ''FINGERPRINT_MISMATCH'') storedFingerprint None"

definition new_OperationInProgressError :: "string \<Rightarrow> thrown" where
  "new_OperationInProgressError msg =
     ErrorObj OperationInProgressError ''OperationInProgressError'' msg
       (Some 409) (Some ''OPERATION_IN_PROGRESS'') None None"

definition new_InvalidRetentionError :: "string \<Rightarrow> thrown" where
  "new_InvalidRetentionError msg =
     ErrorObj InvalidRetentionError ''InvalidRetentionError'' msg
       (Some 400) (Some ''INVALID_RETENTION_PERIOD'') None None"

definition new_IdempotencyInternalError :: "string \<Rightarrow> thrown option \<Rightarrow> thrown" where
  "new_IdempotencyInternalError msg originalError =
     ErrorObj IdempotencyInternalError ''IdempotencyInternalError'' msg
       (Some 500) (Some ''INTERNAL_ERROR'') None originalError"

definition new_HandlerTimeoutError :: "string \<Rightarrow> thrown" where
  "new_HandlerTimeoutError msg =
     ErrorObj HandlerTimeoutError ''HandlerTimeoutError'' msg
       (Some 503) (Some ''HANDLER_TIMEOUT'') None None"

text \<open>\<open>err instanceof HandlerTimeoutError\<close>, \<open>err instanceof Error\<close>.\<close>

fun instanceof_HandlerTimeoutError :: "thrown \<Rightarrow> bool" where
  "instanceof_HandlerTimeoutError (ErrorObj c _ _ _ _ _ _) = (c = HandlerTimeoutError)"
| "instanceof_HandlerTimeoutError (NonError _) = False"

fun instanceof_Error :: "thrown \<Rightarrow> bool" where
  "instanceof_Error (ErrorObj _ _ _ _ _ _ _) = True"
| "instanceof_Error (NonError _) = False"

section \<open>Fingerprint (engine.ts, \<open>IdempotencyEngine.fingerprint\<close>)\<close>

text \<open>
  What the host provides: \<open>String.prototype.localeCompare\<close> (the collation of the
  host's default locale); \<open>JSON.stringify\<close>, which returns \<open>undefined\<close> and no text
  for \<open>undefined\<close>; and \<open>crypto.createHash\<close>, which throws for an algorithm the host
  does not know and otherwise gives the hash object, taken here as \<open>update\<close> followed
  by \<open>digest("hex")\<close>: from the text to the digest, throwing when it is given
  \<open>undefined\<close>.
\<close>

record host =
  localeCompare :: "string \<Rightarrow> string \<Rightarrow> int"
  json_stringify :: "js_value \<Rightarrow> string option"
  createHash :: "string \<Rightarrow> thrown + (string option \<Rightarrow> thrown + string)"

function (sequential) normalize_value :: "(string \<Rightarrow> string \<Rightarrow> int) \<Rightarrow> js_value \<Rightarrow> js_value" where
  "normalize_value lc (JArr xs) = JArr (map (normalize_value lc) xs)"
| "normalize_value lc (JObj es) =
     JObj (fromEntries
            (map (\<lambda>e. (fst e, normalize_value lc (snd e)))
                 (array_sort (\<lambda>a b. lc (fst a) (fst b)) es)))"
| "normalize_value lc v = v"
  by pat_completeness auto
termination
proof (relation "measure (\<lambda>(lc, v). size v)", goal_cases)
  case 1
  show ?case by simp
next
  case (2 lc xs x)
  then show ?case by (induction xs) auto
next
  case (3 lc es e)
  have ins: "set (sort_insert cf x ys) = insert x (set ys)"
    for cf and x :: "string \<times> js_value" and ys
    by (induction ys) auto
  have "set (array_sort cf xs) = set xs" for cf and xs :: "(string \<times> js_value) list"
    by (induction xs) (simp_all add: array_sort_def ins)
  with 3 have "e \<in> set es" by simp
  then show ?case by (induction es) auto
qed

definition fingerprint :: "host \<Rightarrow> string \<Rightarrow> js_value \<Rightarrow> thrown + string" where
  "fingerprint h algorithm data =
     (let normalized = json_stringify h (normalize_value (localeCompare h) data)
      in case createHash h algorithm of
           Inl err \<Rightarrow> Inl err
         | Inr hash \<Rightarrow> hash normalized)"

section \<open>Types of the engine (types.ts)\<close>

datatype audit_action =
    Hit
  | Miss
  | Acquired
  | Locked
  | Fingerprint_mismatch
  | Stored
  | Error
  | Timeout
  | Lock_released

text \<open>
  \<open>AuditEvent\<close>. The stored fingerprint is what the store returned for the record,
  declared a string and not checked to be one.
\<close>

record audit_event =
  ev_timestamp :: string
  ev_key :: string
  ev_action :: audit_action
  ev_fingerprint :: "string option"
  ev_storedFingerprint :: "js_value option"
  ev_metadata :: "entries option"

text \<open>
  An audit callback (\<open>onAudit\<close>): it is known by a name, and it may throw or return a
  promise that rejects, depending on the event it is given.
\<close>

record sink =
  sink_name :: string
  sink_throws :: "audit_event \<Rightarrow> bool"


record engine =
  lockTtl :: int
  retention :: int
  onAudit :: sink
  fingerprintAlgorithm :: string
  keyPrefix :: string

record ExecuteOptions =
  call_onAudit :: "sink option"
  handlerTimeout :: "int option"
  retentionOverride :: "int option"
  metadata :: "entries option"

text \<open>The result of \<open>atomicCheckAndLock\<close>.\<close>

datatype check_result =
    Status_exists (cr_fingerprint: js_value) (cr_result: js_value) (cr_createdAt: js_value)
  | Status_locked
  | Status_acquired

text \<open>
  \<open>IdempotencyStore\<close>: each operation acts on the state of the store and either returns
  or throws; \<open>releaseLock\<close> and \<open>recordAudit\<close> are optional. The last field is no
  method of the interface: \<open>elapse d\<close> is what the passing of \<open>d\<close> milliseconds does to
  the state of the store (the timers it has set fire, the keys it has given a time to live
  expire).
\<close>

record 's store_ops =
  atomicCheckAndLock :: "string \<Rightarrow> string \<Rightarrow> int \<Rightarrow> 's \<Rightarrow> (thrown + check_result) \<times> 's"
  commitResult :: "string \<Rightarrow> string \<Rightarrow> js_value \<Rightarrow> int \<Rightarrow> 's \<Rightarrow> (thrown + unit) \<times> 's"
  releaseLock :: "(string \<Rightarrow> 's \<Rightarrow> (thrown + unit) \<times> 's) option"
  recordAudit :: "(audit_event \<Rightarrow> 's \<Rightarrow> (thrown + unit) \<times> 's) option"
  elapse :: "int \<Rightarrow> 's \<Rightarrow> 's"

text \<open>
  What one run of the handler does, as \<open>Promise.race\<close> against the timer sees it.
  \<open>Resolves\<close> and \<open>Rejects\<close>: it settles at once, before any timer of the host is due
  (an \<open>async\<close> function that awaits no timer and no input or output). \<open>Pending\<close>: it
  never settles. \<open>Resolves_after d\<close> and \<open>Rejects_after d\<close>: it settles \<open>d\<close>
  milliseconds after it was invoked, when the timers due by then have fired.
\<close>

datatype handler_behaviour =
    Resolves js_value
  | Rejects thrown
  | Pending
  | Resolves_after int js_value
  | Rejects_after int thrown

text \<open>
  The world an \<open>execute\<close> call runs in: the store, the calls made to audit callbacks
  (oldest first, by the name of the callback), the number of times the handler has been
  invoked, and the reading of the wall clock (\<open>Date.now()\<close>). The calls of the engine
  and of the store take no time: the clock advances while \<open>execute\<close> waits for the
  handler or for the timer, and between two calls of \<open>execute\<close>.
\<close>

record 's world =
  store :: 's
  sink_calls :: "(string \<times> audit_event) list"
  handler_calls :: nat
  clock :: int

section \<open>The engine (engine.ts)\<close>

subsection \<open>Constructor\<close>


subsection \<open>The audit dispatcher \<open>_audit\<close>\<close>

text \<open>
  The regular expression
  \<open>/(password|token|secret|card|cvv|pin|ssn|full.?name|email|phone)/i\<close>, matched
  anywhere in the key. Case is folded on the ASCII letters. The dot matches one UTF-16
  code unit that is not a line terminator: one character of the basic plane, which is one
  to three bytes of UTF-8, other than U+000A, U+000D, U+2028 and U+2029.
\<close>

definition lower_ascii :: "char \<Rightarrow> char" where
  "lower_ascii c =
     (if 65 \<le> (of_char c :: nat) \<and> (of_char c :: nat) \<le> 90
      then char_of ((of_char c :: nat) + 32) else c)"

definition starts_with :: "string \<Rightarrow> string \<Rightarrow> bool" where
  "starts_with p s = (take (length p) s = p)"

definition dot_length :: "string \<Rightarrow> nat option" where
  "dot_length s =
     (case s of
        [] \<Rightarrow> None
      | c # cs \<Rightarrow>
          let b = (of_char c :: nat) in
          if b < 128 then (if b = 10 \<or> b = 13 then None else Some 1)
          else if 194 \<le> b \<and> b \<le> 223 \<and> 1 \<le> length cs then Some 2
          else if 224 \<le> b \<and> b \<le> 239 \<and> 2 \<le> length cs
                  \<and> take 3 s \<noteq> [CHR 0xE2, CHR 0x80, CHR 0xA8]
                  \<and> take 3 s \<noteq> [CHR 0xE2, CHR 0x80, CHR 0xA9]
               then Some 3
          else None)"

definition sensitive_words :: "string list" where
  "sensitive_words =
     [''password'', ''token'', ''secret'', ''card'', ''cvv'', ''pin'', ''ssn'', ''email'', ''phone'']"

definition match_here :: "string \<Rightarrow> bool" where
  "match_here s =
     (list_ex (\<lambda>p. starts_with p s) sensitive_words
      \<or> (starts_with ''full'' s
          \<and> (starts_with ''name'' (drop 4 s)
              \<or> (case dot_length (drop 4 s) of
                    None \<Rightarrow> False
                  | Some n \<Rightarrow> starts_with ''name'' (drop (4 + n) s)))))"

fun match_anywhere :: "string \<Rightarrow> bool" where
  "match_anywhere [] = match_here []"
| "match_anywhere (c # cs) = (match_here (c # cs) \<or> match_anywhere cs)"

definition sensitive_key :: "string \<Rightarrow> bool" where
  "sensitive_key k = match_anywhere (map lower_ascii k)"

definition safeEvent :: "audit_event \<Rightarrow> audit_event" where
  "safeEvent event =
     \<lparr> ev_timestamp = ev_timestamp event,
       ev_key = ev_key event,
       ev_action = ev_action event,
       ev_fingerprint = ev_fingerprint event,
       ev_storedFingerprint = ev_storedFingerprint event,
       ev_metadata =
         (case ev_metadata event of
            None \<Rightarrow> None
          | Some m \<Rightarrow> Some (fromEntries (filter (\<lambda>e. \<not> sensitive_key (fst e)) m))) \<rparr>"

text \<open>
  The callback is called with the redacted event; if it throws, the \<open>catch\<close> ends the
  dispatch. Otherwise the store's \<open>recordAudit\<close>, when there is one, is called with the
  same event, and what it throws is dropped.
\<close>

definition audit :: "'s store_ops \<Rightarrow> audit_event \<Rightarrow> sink \<Rightarrow> 's world \<Rightarrow> 's world" where
  "audit ops event auditor w =
     (let ev = safeEvent event;
          w1 = w\<lparr>sink_calls := sink_calls w @ [(sink_name auditor, ev)]\<rparr>
      in if sink_throws auditor ev then w1
         else case recordAudit ops of
                None \<Rightarrow> w1
              | Some record_audit \<Rightarrow> w1\<lparr>store := snd (record_audit ev (store w1))\<rparr>)"

subsection \<open>\<open>execute\<close>\<close>

text \<open>Characters of the messages outside ASCII: the en dash and the sign "at least".\<close>

definition en_dash :: string where
  "en_dash = [CHR 0xE2, CHR 0x80, CHR 0x93]"

definition ge_sign :: string where
  "ge_sign = [CHR 0xE2, CHR 0x89, CHR 0xA5]"

text \<open>\<open>options?.onAudit ?? this.options.onAudit\<close>\<close>

definition active_sink :: "engine \<Rightarrow> ExecuteOptions \<Rightarrow> sink" where
  "active_sink eng options = (case call_onAudit options of None \<Rightarrow> onAudit eng | Some f \<Rightarrow> f)"

definition make_event ::
  "'s world \<Rightarrow> string \<Rightarrow> audit_action \<Rightarrow> string option \<Rightarrow> js_value option \<Rightarrow> entries option
   \<Rightarrow> audit_event" where
  "make_event w fullKey act fp stored_fp md =
     \<lparr> ev_timestamp = toISOString (clock w), ev_key = fullKey, ev_action = act, ev_fingerprint = fp,
       ev_storedFingerprint = stored_fp, ev_metadata = md \<rparr>"

text \<open>
  \<open>Promise.race\<close> of the handler against the timer of \<open>handlerTimeout\<close> milliseconds:
  what it settles to, and the time \<open>execute\<close> has waited when it settles. A handler that
  would settle when the timer is due, or later, loses the race.
\<close>

definition race :: "handler_behaviour \<Rightarrow> int \<Rightarrow> thrown + js_value" where
  "race handler handler_timeout =
     (case handler of
        Resolves result \<Rightarrow> Inr result
      | Rejects err \<Rightarrow> Inl err
      | Pending \<Rightarrow>
          Inl (new_HandlerTimeoutError
                 (''Handler timeout after '' @ show_int handler_timeout @ ''ms''))
      | Resolves_after d result \<Rightarrow>
          if d < handler_timeout then Inr result
          else Inl (new_HandlerTimeoutError
                      (''Handler timeout after '' @ show_int handler_timeout @ ''ms''))
      | Rejects_after d err \<Rightarrow>
          if d < handler_timeout then Inl err
          else Inl (new_HandlerTimeoutError
                      (''Handler timeout after '' @ show_int handler_timeout @ ''ms'')))"

definition waited :: "handler_behaviour \<Rightarrow> int \<Rightarrow> int" where
  "waited handler handler_timeout =
     (case handler of
        Resolves result \<Rightarrow> 0
      | Rejects err \<Rightarrow> 0
      | Pending \<Rightarrow> handler_timeout
      | Resolves_after d result \<Rightarrow> min d handler_timeout
      | Rejects_after d err \<Rightarrow> min d handler_timeout)"

text \<open>
  The passing of \<open>d\<close> milliseconds: the clock advances and the store sees the time pass.
  Nothing happens when no time passes.
\<close>

definition elapsed :: "'s store_ops \<Rightarrow> int \<Rightarrow> 's \<Rightarrow> 's" where
  "elapsed ops d s = (if 0 < d then elapse ops d s else s)"

definition pass :: "'s store_ops \<Rightarrow> int \<Rightarrow> 's world \<Rightarrow> 's world" where
  "pass ops d w =
     (if 0 < d then w\<lparr>store := elapsed ops d (store w), clock := clock w + d\<rparr> else w)"

text \<open>
  The \<open>try\<close> block: the handler is invoked and raced against the timer; on success the
  result is committed and \<open>stored\<close> is audited.
\<close>

definition try_block ::
  "'s store_ops \<Rightarrow> engine \<Rightarrow> string \<Rightarrow> string \<Rightarrow> handler_behaviour \<Rightarrow> int \<Rightarrow> int
   \<Rightarrow> ExecuteOptions \<Rightarrow> 's world \<Rightarrow> (thrown + js_value) \<times> 's world" where
  "try_block ops eng fullKey fp handler handler_timeout retentionMs options w =
     (let w1 = pass ops (waited handler handler_timeout)
                 (w\<lparr>handler_calls := handler_calls w + 1\<rparr>)
      in case race handler handler_timeout of
           Inl err \<Rightarrow> (Inl err, w1)
         | Inr result \<Rightarrow>
             (case commitResult ops fullKey fp result retentionMs (store w1) of
                (Inl err, s) \<Rightarrow> (Inl err, w1\<lparr>store := s\<rparr>)
              | (Inr u, s) \<Rightarrow>
                  (Inr result,
                   audit ops
                     (make_event (w1\<lparr>store := s\<rparr>) fullKey Stored (Some fp) None (metadata options))
                     (active_sink eng options) (w1\<lparr>store := s\<rparr>))))"

text \<open>
  The \<open>catch\<close> block: \<open>timeout\<close> or \<open>error\<close> is audited, with the message and the name
  of the error added to the metadata; the error is then thrown again by \<open>execute\<close>.
\<close>

definition error_metadata :: "entries option \<Rightarrow> thrown \<Rightarrow> entries" where
  "error_metadata md err =
     AList.update ''errorCode''
       (if instanceof_Error err then JStr (err_name err) else JUndefined)
       (AList.update ''error''
          (JStr (case err of ErrorObj c n m st co sf ca \<Rightarrow> m | NonError t \<Rightarrow> t))
          (case md of None \<Rightarrow> [] | Some m \<Rightarrow> m))"

definition catch_block ::
  "'s store_ops \<Rightarrow> engine \<Rightarrow> string \<Rightarrow> string \<Rightarrow> ExecuteOptions \<Rightarrow> thrown \<Rightarrow> 's world
   \<Rightarrow> 's world" where
  "catch_block ops eng fullKey fp options err w =
     audit ops
       (make_event w fullKey (if instanceof_HandlerTimeoutError err then Timeout else Error)
          (Some fp) None (Some (error_metadata (metadata options) err)))
       (active_sink eng options) w"

text \<open>
  The \<open>finally\<close> block: \<open>releaseLock\<close> is called if the store has it, and then
  \<open>lock_released\<close> is audited; if \<open>releaseLock\<close> throws, the inner \<open>catch\<close> drops the
  error and nothing is audited.
\<close>

definition finally_block ::
  "'s store_ops \<Rightarrow> engine \<Rightarrow> string \<Rightarrow> ExecuteOptions \<Rightarrow> 's world \<Rightarrow> 's world" where
  "finally_block ops eng fullKey options w =
     (case releaseLock ops of
        None \<Rightarrow>
          audit ops (make_event w fullKey Lock_released None None (metadata options))
            (active_sink eng options) w
      | Some release_lock \<Rightarrow>
          (case release_lock fullKey (store w) of
             (Inl err, s) \<Rightarrow> w\<lparr>store := s\<rparr>
           | (Inr u, s) \<Rightarrow>
               audit ops
                 (make_event (w\<lparr>store := s\<rparr>) fullKey Lock_released None None (metadata options))
                 (active_sink eng options) (w\<lparr>store := s\<rparr>)))"

text \<open>
  \<open>execute(key, fingerprint, handler, options)\<close>. A call without \<open>options\<close> is a call
  whose options are all absent. The result is what the promise settles to: \<open>Inl\<close> the
  rejection, \<open>Inr\<close> the value.
\<close>

definition execute ::
  "'s store_ops \<Rightarrow> engine \<Rightarrow> string \<Rightarrow> string \<Rightarrow> handler_behaviour \<Rightarrow> ExecuteOptions
   \<Rightarrow> 's world \<Rightarrow> (thrown + js_value) \<times> 's world" where
  "execute ops eng k fp handler options w =
     (if trim k = [] then
        (Inl (new_InvalidIdempotencyKeyError
                ''idempotency key must be a non-empty string (from Idempotency-Key header)''), w)
      else
        let fullKey = keyPrefix eng @ trim k;
            handler_timeout = (case handlerTimeout options of None \<Rightarrow> 30000 | Some t \<Rightarrow> t)
        in
        if handler_timeout < 50 \<or> handler_timeout > 300000 then
          (Inl (new_Error (''handlerTimeout must be 50ms'' @ en_dash @ ''5m (got ''
                             @ show_int handler_timeout @ ''ms)'')), w)
        else
          let retentionMs = (case retentionOverride options of None \<Rightarrow> retention eng | Some r \<Rightarrow> r)
          in
          if retentionMs < 86400000 then
            (Inl (new_InvalidRetentionError
                    (''retentionOverride must be '' @ ge_sign @ ''24h (got ''
                       @ show_int retentionMs @ ''ms)'')), w)
          else
            (case atomicCheckAndLock ops fullKey fp (lockTtl eng) (store w) of
               (Inl err, s) \<Rightarrow> (Inl err, w\<lparr>store := s\<rparr>)
             | (Inr checkResult, s) \<Rightarrow>
                 let w0 = w\<lparr>store := s\<rparr> in
                 (case checkResult of
                    Status_exists stored_fp result created \<Rightarrow>
                      if stored_fp \<noteq> JStr fp then
                        (Inl (new_FingerprintMismatchError
                                (''Fingerprint mismatch for key '' @ k @ '' '' @ en_dash
                                   @ '' possible replay attack or key reuse with different payload'')
                                None),
                         audit ops
                           (make_event w0 fullKey Fingerprint_mismatch (Some fp) (Some stored_fp)
                              (metadata options))
                           (active_sink eng options) w0)
                      else
                        (Inr result,
                         audit ops (make_event w0 fullKey Hit (Some fp) None (metadata options))
                           (active_sink eng options) w0)
                  | Status_locked \<Rightarrow>
                      (Inl (new_OperationInProgressError
                              (''Operation for key '' @ k
                                 @ '' is already in progress (lock held by concurrent request)'')),
                       audit ops (make_event w0 fullKey Locked None None (metadata options))
                         (active_sink eng options) w0)
                  | Status_acquired \<Rightarrow>
                      let w1 = audit ops
                                 (make_event w0 fullKey Acquired (Some fp) None (metadata options))
                                 (active_sink eng options) w0;
                          (outcome, w2) = try_block ops eng fullKey fp handler handler_timeout
                                            retentionMs options w1;
                          w3 = (case outcome of
                                  Inl err \<Rightarrow> catch_block ops eng fullKey fp options err w2
                                | Inr result \<Rightarrow> w2)
                      in (outcome, finally_block ops eng fullKey options w3))))"

section \<open>The in-memory store (mocks/memory-store.ts)\<close>

text \<open>
  The map holds the two kinds of record the store writes. A timer set with \<open>setTimeout\<close>
  is kept with the time at which it is due; \<open>fire\<close> is what its callback does when the
  host runs it, and \<open>mem_elapse\<close> runs the callbacks of the timers that come due while
  time passes.

  \<open>setTimeout\<close> of Node.js takes a delay below 1 or above \<open>2^31 - 1\<close> milliseconds
  for a delay of 1 millisecond.
\<close>

datatype memory_record =
    Processing (lockAcquiredAt: int) (lockTtlMs: int)
  | Committed (rec_fingerprint: string) (rec_result: js_value) (rec_createdAt: string)

datatype timer =
    Lock_expiry string
  | Retention_expiry string

record memory_store =
  records :: "string \<rightharpoonup> memory_record"
  auditLog :: "audit_event list"
  timers :: "(int \<times> timer) list"
  date_now :: int

definition timeout_delay :: "int \<Rightarrow> int" where
  "timeout_delay ms = (if ms < 1 \<or> 2147483647 < ms then 1 else ms)"

definition setTimeout :: "timer \<Rightarrow> int \<Rightarrow> memory_store \<Rightarrow> memory_store" where
  "setTimeout callback ms m =
     m\<lparr>timers := timers m @ [(date_now m + timeout_delay ms, callback)]\<rparr>"

definition mem_atomicCheckAndLock ::
  "string \<Rightarrow> string \<Rightarrow> int \<Rightarrow> memory_store \<Rightarrow> (thrown + check_result) \<times> memory_store" where
  "mem_atomicCheckAndLock k providedFingerprint ttl m =
     (case records m k of
        Some existing \<Rightarrow>
          (case existing of
             Processing a t \<Rightarrow> (Inr Status_locked, m)
           | Committed f r c \<Rightarrow> (Inr (Status_exists (JStr f) r (JStr c)), m))
      | None \<Rightarrow>
          (Inr Status_acquired,
           setTimeout (Lock_expiry k) ttl
             (m\<lparr>records := (records m)(k \<mapsto> Processing (date_now m) ttl)\<rparr>)))"

definition mem_commitResult ::
  "string \<Rightarrow> string \<Rightarrow> js_value \<Rightarrow> int \<Rightarrow> memory_store \<Rightarrow> (thrown + unit) \<times> memory_store" where
  "mem_commitResult k fp res retentionMs m =
     (case records m k of
        Some (Processing a t) \<Rightarrow>
          (Inr (),
           setTimeout (Retention_expiry k) retentionMs
             (m\<lparr>records := (records m)(k \<mapsto> Committed fp res (toISOString (date_now m)))\<rparr>))
      | _ \<Rightarrow> (Inl (new_Error ''Cannot commit: lock not held or expired''), m))"

definition mem_releaseLock :: "string \<Rightarrow> memory_store \<Rightarrow> (thrown + unit) \<times> memory_store" where
  "mem_releaseLock k m =
     (case records m k of
        Some (Processing a t) \<Rightarrow> (Inr (), m\<lparr>records := (records m)(k := None)\<rparr>)
      | _ \<Rightarrow> (Inr (), m))"

definition mem_recordAudit ::
  "audit_event \<Rightarrow> memory_store \<Rightarrow> (thrown + unit) \<times> memory_store" where
  "mem_recordAudit event m = (Inr (), m\<lparr>auditLog := auditLog m @ [event]\<rparr>)"

fun fire :: "timer \<Rightarrow> memory_store \<Rightarrow> memory_store" where
  "fire (Lock_expiry k) m =
     (case records m k of
        Some (Processing a t) \<Rightarrow> m\<lparr>records := (records m)(k := None)\<rparr>
      | _ \<Rightarrow> m)"
| "fire (Retention_expiry k) m =
     (case records m k of
        Some (Committed f r c) \<Rightarrow> m\<lparr>records := (records m)(k := None)\<rparr>
      | _ \<Rightarrow> m)"

text \<open>
  While \<open>d\<close> milliseconds pass, the timers due by the end of them leave the list and
  their callbacks run, in the order of their due times and, for the same due time, in the
  order in which they were set.
\<close>

definition mem_elapse :: "int \<Rightarrow> memory_store \<Rightarrow> memory_store" where
  "mem_elapse d m =
     fold (\<lambda>t. fire (snd t))
       (sort_key fst (filter (\<lambda>t. fst t \<le> date_now m + d) (timers m)))
       (m\<lparr>timers := filter (\<lambda>t. \<not> fst t \<le> date_now m + d) (timers m),
          date_now := date_now m + d\<rparr>)"

definition MemoryStore :: "memory_store store_ops" where
  "MemoryStore =
     \<lparr> atomicCheckAndLock = mem_atomicCheckAndLock,
       commitResult = mem_commitResult,
       releaseLock = Some mem_releaseLock,
       recordAudit = Some mem_recordAudit,
       elapse = mem_elapse \<rparr>"

section \<open>The Redis adapter (adapters/redis)\<close>

text \<open>
  A value held by Redis is a text. It is kept by what \<open>pcall(cjson.decode, stored)\<close>
  makes of it: a text that is not JSON, for which the call fails, or the JSON text of a
  value. Every key holds its value and, when it was set with an expiry (\<open>PX\<close>), the
  milliseconds it has left to live.

  The state of the server and of the connection: when \<open>fault\<close> is set, every command
  of the client rejects with that message; \<open>script_error\<close> is the message of the reply
  when a script raises; \<open>redis_now\<close> is the clock of the adapter.
\<close>

datatype redis_text =
    Malformed string
  | Json js_value

record redis =
  db :: "string \<rightharpoonup> redis_text \<times> int option"
  fault :: "string option"
  script_error :: string
  redis_now :: int

fun cjson_decode :: "redis_text \<Rightarrow> js_value option" where
  "cjson_decode (Malformed t) = None"
| "cjson_decode (Json v) = Some v"

text \<open>
  Lua on decoded values. \<open>JUndefined\<close> stands for \<open>nil\<close> and \<open>JNull\<close> for
  \<open>cjson.null\<close>, which is not \<open>nil\<close>. Objects and arrays are tables; the field of
  an object is its last entry with that key; a string has no field \<open>status\<close>; indexing
  a number, a boolean or \<open>cjson.null\<close> raises.
\<close>

fun is_table :: "js_value \<Rightarrow> bool" where
  "is_table (JObj es) = True"
| "is_table (JArr xs) = True"
| "is_table v = False"

fun lua_index :: "js_value \<Rightarrow> string \<Rightarrow> js_value option" where
  "lua_index (JObj es) f = Some (case map_of (rev es) f of None \<Rightarrow> JUndefined | Some v \<Rightarrow> v)"
| "lua_index (JArr xs) f = Some JUndefined"
| "lua_index (JStr t) f = Some JUndefined"
| "lua_index v f = None"

definition lua_truthy :: "js_value \<Rightarrow> bool" where
  "lua_truthy v = (v \<noteq> JUndefined \<and> v \<noteq> JBool False)"

definition lua_or :: "js_value \<Rightarrow> js_value \<Rightarrow> js_value" where
  "lua_or a b = (if lua_truthy a then a else b)"

definition field :: "js_value \<Rightarrow> string \<Rightarrow> js_value" where
  "field data f = (case lua_index data f of None \<Rightarrow> JUndefined | Some v \<Rightarrow> v)"

text \<open>
  \<open>SET key value PX ttl [NX]\<close>: an error for an expiry that is not positive; with
  \<open>NX\<close>, no write and a nil reply when the key exists.
\<close>

definition redis_set ::
  "string \<Rightarrow> redis_text \<Rightarrow> int \<Rightarrow> bool \<Rightarrow> (string \<rightharpoonup> redis_text \<times> int option)
   \<Rightarrow> (bool option) \<times> (string \<rightharpoonup> redis_text \<times> int option)" where
  "redis_set k v ttl nx d =
     (if ttl \<le> 0 then (None, d)
      else if nx \<and> d k \<noteq> None then (Some False, d)
      else (Some True, d(k \<mapsto> (v, Some ttl))))"

text \<open>
  The script \<open>CHECK_AND_LOCK\<close> (lua.ts). The reply is given as \<open>JSON.parse\<close> reads
  it in the adapter; \<open>Inl\<close> is a script that raised.
\<close>

definition CHECK_AND_LOCK ::
  "string \<Rightarrow> int \<Rightarrow> string \<Rightarrow> (string \<rightharpoonup> redis_text \<times> int option)
   \<Rightarrow> (unit + check_result) \<times> (string \<rightharpoonup> redis_text \<times> int option)" where
  "CHECK_AND_LOCK k lock_ttl now d =
     (case d k of
        Some (stored, px) \<Rightarrow>
          (case cjson_decode stored of
             None \<Rightarrow> (Inr Status_acquired, d)
           | Some data \<Rightarrow>
               if \<not> is_table data \<or> \<not> lua_truthy (field data ''status'') then
                 (Inr Status_acquired, d)
               else if field data ''status'' = JStr ''processing'' then
                 (Inr Status_locked, d)
               else
                 (Inr (Status_exists
                         (lua_or (field data ''fingerprint'') (JStr []))
                         (field data ''result'')
                         (lua_or (field data ''createdAt'') (JStr now))), d))
      | None \<Rightarrow>
          let lock_data = Json (JObj [(''status'', JStr ''processing''), (''lockAcquiredAt'', JStr now)])
          in (case redis_set k lock_data lock_ttl True d of
                (None, d') \<Rightarrow> (Inl (), d')
              | (Some ok, d') \<Rightarrow> if ok then (Inr Status_acquired, d') else (Inr Status_locked, d')))"

text \<open>
  The script \<open>COMMIT_RESULT\<close>. The reply is 0 or 1. The result reaches the script as
  the text \<open>JSON.stringify\<close> gives and is decoded and encoded again; this passage is
  taken to return the result.
\<close>

definition COMMIT_RESULT ::
  "string \<Rightarrow> string \<Rightarrow> js_value \<Rightarrow> int \<Rightarrow> string \<Rightarrow> (string \<rightharpoonup> redis_text \<times> int option)
   \<Rightarrow> (unit + nat) \<times> (string \<rightharpoonup> redis_text \<times> int option)" where
  "COMMIT_RESULT k fp res retention_ms now d =
     (case d k of
        None \<Rightarrow> (Inr 0, d)
      | Some (stored, px) \<Rightarrow>
          (case cjson_decode stored of
             None \<Rightarrow> (Inr 0, d)
           | Some data \<Rightarrow>
               (case lua_index data ''status'' of
                  None \<Rightarrow> (Inl (), d)
                | Some st \<Rightarrow>
                    if \<not> lua_truthy st \<or> st \<noteq> JStr ''processing'' then (Inr 0, d)
                    else
                      let committed_data =
                            Json (JObj [(''status'', JStr ''committed''), (''fingerprint'', JStr fp),
                                        (''result'', res), (''createdAt'', JStr now)])
                      in (case redis_set k committed_data retention_ms False d of
                            (None, d') \<Rightarrow> (Inl (), d')
                          | (Some ok, d') \<Rightarrow> (Inr 1, d')))))"

text \<open>The class \<open>RedisAdapter\<close>.\<close>

definition store_error :: "string \<Rightarrow> thrown" where
  "store_error msg = new_Error (''Idempotency store error: '' @ msg)"

definition redis_atomicCheckAndLock ::
  "string \<Rightarrow> string \<Rightarrow> int \<Rightarrow> redis \<Rightarrow> (thrown + check_result) \<times> redis" where
  "redis_atomicCheckAndLock k fp ttl r =
     (case fault r of
        Some msg \<Rightarrow> (Inl (store_error msg), r)
      | None \<Rightarrow>
          (case CHECK_AND_LOCK k ttl (toISOString (redis_now r)) (db r) of
             (Inl u, d) \<Rightarrow> (Inl (store_error (script_error r)), r\<lparr>db := d\<rparr>)
           | (Inr reply, d) \<Rightarrow> (Inr reply, r\<lparr>db := d\<rparr>)))"

definition redis_commitResult ::
  "string \<Rightarrow> string \<Rightarrow> js_value \<Rightarrow> int \<Rightarrow> redis \<Rightarrow> (thrown + unit) \<times> redis" where
  "redis_commitResult k fp res retentionMs r =
     (case fault r of
        Some msg \<Rightarrow> (Inl (store_error msg), r)
      | None \<Rightarrow>
          (case COMMIT_RESULT k fp res retentionMs (toISOString (redis_now r)) (db r) of
             (Inl u, d) \<Rightarrow> (Inl (store_error (script_error r)), r\<lparr>db := d\<rparr>)
           | (Inr success, d) \<Rightarrow>
               if success = 0 then
                 (Inl (store_error ''Failed to commit result: lock expired or already committed''),
                  r\<lparr>db := d\<rparr>)
               else (Inr (), r\<lparr>db := d\<rparr>)))"

text \<open>\<open>releaseLock\<close> is \<open>UNLINK key\<close>, with any rejection dropped.\<close>

definition redis_releaseLock :: "string \<Rightarrow> redis \<Rightarrow> (thrown + unit) \<times> redis" where
  "redis_releaseLock k r =
     (case fault r of
        Some msg \<Rightarrow> (Inr (), r)
      | None \<Rightarrow> (Inr (), r\<lparr>db := (db r)(k := None)\<rparr>))"

text \<open>
  While \<open>d\<close> milliseconds pass, the keys that have no more than \<open>d\<close> milliseconds
  left to live are removed by the server.
\<close>

definition redis_elapse :: "int \<Rightarrow> redis \<Rightarrow> redis" where
  "redis_elapse d r =
     r\<lparr>db := (\<lambda>k. case db r k of
                      None \<Rightarrow> None
                    | Some (v, None) \<Rightarrow> Some (v, None)
                    | Some (v, Some px) \<Rightarrow> if px \<le> d then None else Some (v, Some (px - d))),
       redis_now := redis_now r + d\<rparr>"

definition RedisAdapter :: "redis store_ops" where
  "RedisAdapter =
     \<lparr> atomicCheckAndLock = redis_atomicCheckAndLock,
       commitResult = redis_commitResult,
       releaseLock = Some redis_releaseLock,
       recordAudit = None,
       elapse = redis_elapse \<rparr>"

section \<open>Values of the test suite (engine.test.ts, redis adapter tests)\<close>

definition auditMock :: sink where
  "auditMock = \<lparr> sink_name = ''auditMock'', sink_throws = (\<lambda>e. False) \<rparr>"

definition throwingAudit :: sink where
  "throwingAudit = \<lparr> sink_name = ''throwingAudit'', sink_throws = (\<lambda>e. True) \<rparr>"

definition test_engine :: engine where
  "test_engine =
     \<lparr> lockTtl = 30000, retention = 86400000, onAudit = auditMock,
       fingerprintAlgorithm = ''sha256'', keyPrefix = [] \<rparr>"

definition no_options :: ExecuteOptions where
  "no_options =
     \<lparr> call_onAudit = None, handlerTimeout = None, retentionOverride = None, metadata = None \<rparr>"

definition epoch :: string where
  "epoch = ''1970-01-01T00:00:00.000Z''"

definition new_MemoryStore :: memory_store where
  "new_MemoryStore =
     \<lparr> records = Map.empty, auditLog = [], timers = [], date_now = 0 \<rparr>"

definition new_Redis :: redis where
  "new_Redis =
     \<lparr> db = Map.empty, fault = None, script_error = ''ERR Error running script'',
       redis_now = 0 \<rparr>"

definition start :: "'s \<Rightarrow> 's world" where
  "start s = \<lparr> store = s, sink_calls = [], handler_calls = 0, clock = 0 \<rparr>"

definition success :: js_value where
  "success = JObj [(''success'', JBool True)]"

text \<open>The audit callbacks called during a run, and their action tags.\<close>

definition new_calls :: "'s world \<Rightarrow> 's world \<Rightarrow> (string \<times> audit_event) list" where
  "new_calls w w' = drop (length (sink_calls w)) (sink_calls w')"

definition trail :: "'s world \<Rightarrow> 's world \<Rightarrow> audit_action list" where
  "trail w w' = map (\<lambda>c. ev_action (snd c)) (new_calls w w')"

text \<open>A store like the in-memory one, except that its \<open>releaseLock\<close> rejects.\<close>

definition rejectingRelease :: "memory_store store_ops" where
  "rejectingRelease =
     MemoryStore\<lparr>releaseLock := Some (\<lambda>k m. (Inl (new_Error ''release failed''), m))\<rparr>"

text \<open>
  A host for running the examples: its collation is the order of the bytes, its
  \<open>JSON.stringify\<close> writes compact JSON, and the one digest it knows, under the name
  \<open>sha256\<close>, returns the text it is given, so that a fingerprint shows the canonical
  text.
\<close>

fun lexicographic_compare :: "string \<Rightarrow> string \<Rightarrow> int" where
  "lexicographic_compare [] [] = 0"
| "lexicographic_compare [] (b # bs) = - 1"
| "lexicographic_compare (a # as) [] = 1"
| "lexicographic_compare (a # as) (b # bs) =
     (if (of_char a :: nat) < of_char b then - 1
      else if (of_char b :: nat) < of_char a then 1
      else lexicographic_compare as bs)"

definition json_quote :: "string \<Rightarrow> string" where
  "json_quote t =
     [CHR 0x22]
     @ concat (map (\<lambda>c. if c = CHR 0x22 then [CHR 0x5C, CHR 0x22]
                         else if c = CHR 0x5C then [CHR 0x5C, CHR 0x5C]
                         else if c = CHR 0x0A then [CHR 0x5C, CHR ''n'']
                         else if c = CHR 0x0D then [CHR 0x5C, CHR ''r'']
                         else if c = CHR 0x09 then [CHR 0x5C, CHR ''t'']
                         else [c]) t)
     @ [CHR 0x22]"

fun commas :: "string list \<Rightarrow> string" where
  "commas [] = []"
| "commas [t] = t"
| "commas (t # u # us) = t @ '','' @ commas (u # us)"

fun json_text :: "js_value \<Rightarrow> string" where
  "json_text JUndefined = ''null''"
| "json_text JNull = ''null''"
| "json_text (JBool b) = (if b then ''true'' else ''false'')"
| "json_text (JNum i) = show_int i"
| "json_text (JStr t) = json_quote t"
| "json_text (JArr xs) = ''['' @ commas (map json_text xs) @ '']''"
| "json_text (JObj es) =
     ''{''
     @ commas (map (\<lambda>e. if snd e = JUndefined then []
                          else json_quote (fst e) @ '':'' @ json_text (snd e)) es)
     @ ''}''"

definition test_host :: host where
  "test_host =
     \<lparr> localeCompare = lexicographic_compare,
       json_stringify = (\<lambda>v. if v = JUndefined then None else Some (json_text v)),
       createHash =
         (\<lambda>a. if a = ''sha256'' then
                Inr (\<lambda>t. case t of
                            None \<Rightarrow> Inl (NonError ''TypeError [ERR_INVALID_ARG_TYPE]'')
                          | Some text \<Rightarrow> Inr text)
              else Inl (new_Error ''Digest method not supported'')) \<rparr>"

text \<open>The metadata of the test "should filter PII from audit events".\<close>

definition pii_metadata :: entries where
  "pii_metadata =
     [(''password'', JStr ''secret123''), (''email'', JStr ''user@example.com''),
      (''ssn'', JStr ''123-45-6789''), (''cvv'', JStr ''123''),
      (''cardNumber'', JStr ''4111111111111111''), (''requestId'', JStr ''req_123''),
      (''clientId'', JStr ''client_456''), (''ip'', JStr ''192.168.1.1'')]"

text \<open>An in-memory store that holds a committed record for the key \<open>k2\<close>.\<close>

definition committed_memory :: memory_store where
  "committed_memory =
     new_MemoryStore\<lparr>records := [''k2'' \<mapsto> Committed ''aaa'' success epoch]\<rparr>"

text \<open>
  Redis with the truncated value of the adapter's test "should handle corrupted Redis data
  gracefully", Redis with a committed record, and a connection that is down.
\<close>

definition corrupt_redis :: redis where
  "corrupt_redis =
     new_Redis\<lparr>db := [''idemp:test-key'' \<mapsto> (Malformed ''{\"status\":\"proce'', None)]\<rparr>"

definition committed_redis :: redis where
  "committed_redis =
     new_Redis\<lparr>db := [''idemp:test-key'' \<mapsto>
        (Json (JObj [(''status'', JStr ''committed''), (''fingerprint'', JStr ''fp123''),
                     (''result'', JObj [(''paymentId'', JStr ''pay_123'')]),
                     (''createdAt'', JStr epoch)]),
         Some 10000)]\<rparr>"


section \<open>Notions used in the statements\<close>

text \<open>The call passes the validation at the head of \<open>execute\<close>.\<close>

definition accepted :: "engine \<Rightarrow> string \<Rightarrow> ExecuteOptions \<Rightarrow> bool" where
  "accepted eng k options =
     (trim k \<noteq> []
      \<and> 50 \<le> (case handlerTimeout options of None \<Rightarrow> 30000 | Some t \<Rightarrow> t)
      \<and> (case handlerTimeout options of None \<Rightarrow> 30000 | Some t \<Rightarrow> t) \<le> 300000
      \<and> 86400000 \<le> (case retentionOverride options of None \<Rightarrow> retention eng | Some r \<Rightarrow> r))"

text \<open>\<open>releaseLock\<close> is absent, or returns without throwing for this key and state.\<close>

definition released :: "'s store_ops \<Rightarrow> string \<Rightarrow> 's \<Rightarrow> bool" where
  "released ops fullKey s =
     (case releaseLock ops of None \<Rightarrow> True | Some rl \<Rightarrow> \<not> isl (fst (rl fullKey s)))"

text \<open>A call of the active audit callback with the redacted event.\<close>

definition stamp :: "engine \<Rightarrow> ExecuteOptions \<Rightarrow> audit_event \<Rightarrow> string \<times> audit_event" where
  "stamp eng options e = (sink_name (active_sink eng options), safeEvent e)"

text \<open>The orders of audit actions the specification permits for one call.\<close>

definition permitted :: "audit_action list \<Rightarrow> bool" where
  "permitted t =
     (t \<in> set [[Hit], [Locked], [Fingerprint_mismatch],
                [Acquired, Stored, Lock_released],
                [Acquired, Timeout, Lock_released],
                [Acquired, Error, Lock_released]])"

text \<open>
  Two payloads differ only in the insertion order of mapping keys, at any depth: the
  entries of an object, whose keys are distinct, may come in another order, with values
  that differ in the same way; arrays keep their order.
\<close>

fun composite :: "js_value \<Rightarrow> bool" where
  "composite (JArr xs) = True"
| "composite (JObj es) = True"
| "composite v = False"

inductive reordered :: "js_value \<Rightarrow> js_value \<Rightarrow> bool" where
  atom: "\<not> composite v \<Longrightarrow> reordered v v"
| array: "list_all2 reordered xs ys \<Longrightarrow> reordered (JArr xs) (JArr ys)"
| object:
    "distinct (map fst es) \<Longrightarrow>
     list_all2 (\<lambda>e f. fst e = fst f \<and> reordered (snd e) (snd f)) es fs' \<Longrightarrow>
     mset fs' = mset fs \<Longrightarrow>
     reordered (JObj es) (JObj fs)"

text \<open>The keys of the objects of a value, at any depth.\<close>

fun keys_of :: "js_value \<Rightarrow> string list" where
  "keys_of (JArr xs) = concat (map keys_of xs)"
| "keys_of (JObj es) = map fst es @ concat (map (\<lambda>e. keys_of (snd e)) es)"
| "keys_of v = []"

text \<open>
  The comparator orders the given keys: of two keys it puts one first, it is transitive,
  and it does not put two different keys each before the other.
\<close>

definition orders :: "(string \<Rightarrow> string \<Rightarrow> int) \<Rightarrow> string list \<Rightarrow> bool" where
  "orders lc ks =
     (\<forall>a \<in> set ks. \<forall>b \<in> set ks.
        (lc a b \<le> 0 \<or> lc b a \<le> 0)
        \<and> (lc a b \<le> 0 \<and> lc b a \<le> 0 \<longrightarrow> a = b)
        \<and> (\<forall>c \<in> set ks. lc a b \<le> 0 \<and> lc b c \<le> 0 \<longrightarrow> lc a c \<le> 0))"

text \<open>
  The order of keys in a canonical value: in every object the array-index keys come
  first, in ascending numeric order, and the other keys follow in the ascending order of
  the comparator.
\<close>

definition canonical_keys :: "(string \<Rightarrow> string \<Rightarrow> int) \<Rightarrow> string list \<Rightarrow> bool" where
  "canonical_keys lc ks =
     (ks = filter is_array_index ks @ filter (\<lambda>k. \<not> is_array_index k) ks
      \<and> sorted (map digits_value (filter is_array_index ks))
      \<and> sorted_wrt (\<lambda>a b. lc a b \<le> 0) (filter (\<lambda>k. \<not> is_array_index k) ks))"

fun canonical :: "(string \<Rightarrow> string \<Rightarrow> int) \<Rightarrow> js_value \<Rightarrow> bool" where
  "canonical lc (JArr xs) = list_all (canonical lc) xs"
| "canonical lc (JObj es) =
     (canonical_keys lc (map fst es) \<and> list_all (\<lambda>e. canonical lc (snd e)) es)"
| "canonical lc v = True"

text \<open>The keys are in ascending lexicographic order of their bytes.\<close>

definition lexicographic :: "string list \<Rightarrow> bool" where
  "lexicographic ks = sorted_wrt (\<lambda>a b. lexicographic_compare a b < 0) ks"

text \<open>The comparator orders the elements of a set, in the sense of \<open>orders\<close>.\<close>

definition ordered_on :: "('a \<Rightarrow> 'a \<Rightarrow> int) \<Rightarrow> 'a set \<Rightarrow> bool" where
  "ordered_on cf A =
     (\<forall>a \<in> A. \<forall>b \<in> A.
        (cf a b \<le> 0 \<or> cf b a \<le> 0)
        \<and> (cf a b \<le> 0 \<and> cf b a \<le> 0 \<longrightarrow> a = b)
        \<and> (\<forall>c \<in> A. cf a b \<le> 0 \<and> cf b c \<le> 0 \<longrightarrow> cf a c \<le> 0))"


text \<open>
  The state of the store when \<open>execute\<close> invokes the handler: after the probe and after
  \<open>acquired\<close> has been audited. When the handler settles at once, it is the state on
  which \<open>commitResult\<close> is called; otherwise \<open>commitResult\<close> is called on what the
  time the handler took has made of it.
\<close>

definition commit_state ::
  "'s store_ops \<Rightarrow> engine \<Rightarrow> string \<Rightarrow> string \<Rightarrow> ExecuteOptions \<Rightarrow> 's world \<Rightarrow> 's" where
  "commit_state ops eng fullKey fp options w =
     store (audit ops (make_event w fullKey Acquired (Some fp) None (metadata options))
              (active_sink eng options)
              (w\<lparr>store := snd (atomicCheckAndLock ops fullKey fp (lockTtl eng) (store w))\<rparr>))"

text \<open>\<open>options?.handlerTimeout ?? 30000\<close>\<close>

definition timeout_of :: "ExecuteOptions \<Rightarrow> int" where
  "timeout_of options = (case handlerTimeout options of None \<Rightarrow> 30000 | Some t \<Rightarrow> t)"

text \<open>
  What a store holds for a key: nothing, a processing record, or a committed record with
  its fingerprint and its result.
\<close>

datatype key_state = Absent | In_progress | Done string js_value

text \<open>
  The store keeps the part of its contract that a duplicate call relies on, read through
  \<open>view\<close>: the probe of an absent key returns \<open>acquired\<close> and installs a processing
  record; the probe of a key with a committed record returns \<open>exists\<close> with the
  fingerprint and the result of the record; \<open>commitResult\<close> on a processing record
  returns and leaves the committed record; \<open>releaseLock\<close>, if the store has it, does
  not throw and leaves a committed record as it is; \<open>recordAudit\<close>, if the store has
  it, changes the record of no key.
\<close>

definition keeps_contract :: "'s store_ops \<Rightarrow> ('s \<Rightarrow> string \<Rightarrow> key_state) \<Rightarrow> bool" where
  "keeps_contract ops view =
     ((\<forall>s k fp ttl. view s k = Absent \<longrightarrow>
         fst (atomicCheckAndLock ops k fp ttl s) = Inr Status_acquired
         \<and> view (snd (atomicCheckAndLock ops k fp ttl s)) k = In_progress)
      \<and> (\<forall>s k fp ttl f r. view s k = Done f r \<longrightarrow>
            (\<exists>c. fst (atomicCheckAndLock ops k fp ttl s) = Inr (Status_exists (JStr f) r c)))
      \<and> (\<forall>s k fp r ms. view s k = In_progress \<longrightarrow>
            fst (commitResult ops k fp r ms s) = Inr ()
            \<and> view (snd (commitResult ops k fp r ms s)) k = Done fp r)
      \<and> (\<forall>rl s k. releaseLock ops = Some rl \<longrightarrow>
            \<not> isl (fst (rl k s))
            \<and> (\<forall>f r. view s k = Done f r \<longrightarrow> view (snd (rl k s)) k = Done f r))
      \<and> (\<forall>ra ev s k. recordAudit ops = Some ra \<longrightarrow> view (snd (ra ev s)) k = view s k))"

text \<open>The reading of the in-memory store.\<close>

definition mem_view :: "memory_store \<Rightarrow> string \<Rightarrow> key_state" where
  "mem_view m k =
     (case records m k of
        None \<Rightarrow> Absent
      | Some (Processing a t) \<Rightarrow> In_progress
      | Some (Committed f r c) \<Rightarrow> Done f r)"

section \<open>The audit dispatcher and the blocks of \<open>execute\<close>\<close>

lemma sink_calls_audit:
  "sink_calls (audit ops ev a w) = sink_calls w @ [(sink_name a, safeEvent ev)]"
  by (simp add: audit_def Let_def split: option.split)

lemma handler_calls_audit: "handler_calls (audit ops ev a w) = handler_calls w"
  by (simp add: audit_def Let_def split: option.split)

lemma clock_audit: "clock (audit ops ev a w) = clock w"
  by (simp add: audit_def Let_def split: option.split)

lemma action_safeEvent: "ev_action (safeEvent e) = ev_action e"
  by (simp add: safeEvent_def)

lemma action_make_event: "ev_action (make_event w k a f sf md) = a"
  by (simp add: make_event_def)

lemma make_event_store: "make_event (w\<lparr>store := s\<rparr>) = make_event w"
  by (simp add: make_event_def fun_eq_iff)

lemma make_event_handler_calls: "make_event (w\<lparr>handler_calls := n\<rparr>) = make_event w"
  by (simp add: make_event_def fun_eq_iff)

lemma sink_calls_pass: "sink_calls (pass ops d w) = sink_calls w"
  by (simp add: pass_def)

lemma handler_calls_pass: "handler_calls (pass ops d w) = handler_calls w"
  by (simp add: pass_def)

lemma store_pass: "store (pass ops d w) = elapsed ops d (store w)"
  by (simp add: pass_def elapsed_def)

lemma make_event_pass:
  "make_event (pass ops d (w\<lparr>handler_calls := n\<rparr>)) = make_event (pass ops d w)"
  by (simp add: make_event_def pass_def fun_eq_iff)

lemma try_block_calls:
  "sink_calls (snd (try_block ops eng fk fp h t r opts w))
     = sink_calls w
       @ (if isl (fst (try_block ops eng fk fp h t r opts w)) then []
          else [stamp eng opts
                  (make_event (pass ops (waited h t) w) fk Stored (Some fp) None
                     (metadata opts))])"
  by (simp add: try_block_def Let_def sink_calls_audit sink_calls_pass make_event_store
        make_event_pass stamp_def split: sum.split prod.split)

lemma catch_block_calls:
  "sink_calls (catch_block ops eng fk fp opts err w)
     = sink_calls w
       @ [stamp eng opts
            (make_event w fk (if instanceof_HandlerTimeoutError err then Timeout else Error)
               (Some fp) None (Some (error_metadata (metadata opts) err)))]"
  by (simp add: catch_block_def sink_calls_audit stamp_def)

lemma finally_block_calls:
  "sink_calls (finally_block ops eng fk opts w)
     = sink_calls w
       @ (if released ops fk (store w)
          then [stamp eng opts (make_event w fk Lock_released None None (metadata opts))]
          else [])"
  by (simp add: finally_block_def released_def sink_calls_audit make_event_store stamp_def
        split: option.split sum.split prod.split)

lemmas block_calls = sink_calls_audit finally_block_calls catch_block_calls try_block_calls

lemma trail_execute:
  "trail w (snd (execute ops eng k fp h opts w))
     \<in> set [[], [Hit], [Locked], [Fingerprint_mismatch],
             [Acquired, Stored, Lock_released], [Acquired, Timeout, Lock_released],
             [Acquired, Error, Lock_released],
             [Acquired, Stored], [Acquired, Timeout], [Acquired, Error]]"
  by (simp add: trail_def new_calls_def execute_def Let_def case_prod_beta block_calls stamp_def
        action_safeEvent action_make_event split: sum.split prod.split check_result.split)

lemma trail_execute_released:
  assumes "\<And>fk s. released ops fk s"
  shows "trail w (snd (execute ops eng k fp h opts w))
           \<in> set [[], [Hit], [Locked], [Fingerprint_mismatch],
                   [Acquired, Stored, Lock_released], [Acquired, Timeout, Lock_released],
                   [Acquired, Error, Lock_released]]"
  by (simp add: trail_def new_calls_def execute_def Let_def case_prod_beta block_calls stamp_def
        action_safeEvent action_make_event assms split: sum.split prod.split check_result.split)

lemma trail_execute_empty:
  "trail w (snd (execute ops eng k fp h opts w)) = []
     \<longrightarrow> isl (fst (execute ops eng k fp h opts w))"
  by (auto simp add: trail_def new_calls_def execute_def Let_def case_prod_beta block_calls
        stamp_def split: sum.split prod.split check_result.split)

lemma safe_execute:
  "list_all (\<lambda>c. fst c = sink_name (active_sink eng opts) \<and> snd c \<in> range safeEvent)
     (new_calls w (snd (execute ops eng k fp h opts w)))"
  by (simp add: new_calls_def execute_def Let_def case_prod_beta block_calls stamp_def
        split: sum.split prod.split check_result.split)

lemma keys_fold_update:
  "fst ` set (fold (\<lambda>e obj. AList.update (fst e) (snd e) obj) es acc)
     = fst ` set es \<union> fst ` set acc"
  by (induction es arbitrary: acc) (auto simp: dom_update)

lemma set_own_property_order: "set (own_property_order es) = set es"
  by (auto simp: own_property_order_def)

lemma keys_fromEntries: "fst ` set (fromEntries es) = fst ` set es"
  by (simp add: fromEntries_def set_own_property_order keys_fold_update)

lemma safeEvent_keys:
  assumes "ev_metadata (safeEvent ev) = Some m" and "e \<in> set m"
  shows "\<not> sensitive_key (fst e)"
proof -
  from assms(1) obtain m0 where m: "m = fromEntries (filter (\<lambda>e. \<not> sensitive_key (fst e)) m0)"
    by (auto simp: safeEvent_def split: option.splits)
  from assms(2) have "fst e \<in> fst ` set m" by simp
  then have "fst e \<in> fst ` set (filter (\<lambda>e. \<not> sensitive_key (fst e)) m0)"
    by (simp only: m keys_fromEntries)
  then show ?thesis by auto
qed

lemma released_MemoryStore: "released MemoryStore fk s"
  by (simp add: released_def MemoryStore_def mem_releaseLock_def
        split: option.split memory_record.split)



text \<open>\<open>execute\<close> past its validation.\<close>

lemma execute_accepted:
  assumes "accepted eng k opts"
  shows "execute ops eng k fp h opts w =
     (let fullKey = keyPrefix eng @ trim k;
          handler_timeout = (case handlerTimeout opts of None \<Rightarrow> 30000 | Some t \<Rightarrow> t);
          retentionMs = (case retentionOverride opts of None \<Rightarrow> retention eng | Some r \<Rightarrow> r)
      in case atomicCheckAndLock ops fullKey fp (lockTtl eng) (store w) of
           (Inl err, s) \<Rightarrow> (Inl err, w\<lparr>store := s\<rparr>)
         | (Inr checkResult, s) \<Rightarrow>
             let w0 = w\<lparr>store := s\<rparr> in
             (case checkResult of
                Status_exists stored_fp result created \<Rightarrow>
                  if stored_fp \<noteq> JStr fp then
                    (Inl (new_FingerprintMismatchError
                            (''Fingerprint mismatch for key '' @ k @ '' '' @ en_dash
                               @ '' possible replay attack or key reuse with different payload'')
                            None),
                     audit ops
                       (make_event w0 fullKey Fingerprint_mismatch (Some fp) (Some stored_fp)
                          (metadata opts))
                       (active_sink eng opts) w0)
                  else
                    (Inr result,
                     audit ops (make_event w0 fullKey Hit (Some fp) None (metadata opts))
                       (active_sink eng opts) w0)
              | Status_locked \<Rightarrow>
                  (Inl (new_OperationInProgressError
                          (''Operation for key '' @ k
                             @ '' is already in progress (lock held by concurrent request)'')),
                   audit ops (make_event w0 fullKey Locked None None (metadata opts))
                     (active_sink eng opts) w0)
              | Status_acquired \<Rightarrow>
                  let w1 = audit ops
                             (make_event w0 fullKey Acquired (Some fp) None (metadata opts))
                             (active_sink eng opts) w0;
                      (outcome, w2) = try_block ops eng fullKey fp h handler_timeout
                                        retentionMs opts w1;
                      w3 = (case outcome of
                              Inl err \<Rightarrow> catch_block ops eng fullKey fp opts err w2
                            | Inr result \<Rightarrow> w2)
                  in (outcome, finally_block ops eng fullKey opts w3)))"
  using assms by (simp add: execute_def accepted_def Let_def not_less)

lemma trail_execute_empty_iff:
  "trail w (snd (execute ops eng k fp h opts w)) = []
     \<longleftrightarrow> (\<not> accepted eng k opts
          \<or> isl (fst (atomicCheckAndLock ops (keyPrefix eng @ trim k) fp (lockTtl eng)
                         (store w))))"
proof (cases "accepted eng k opts")
  case True
  show ?thesis
    by (auto simp add: True execute_accepted [OF True] trail_def new_calls_def Let_def
          case_prod_beta block_calls stamp_def split: sum.split prod.split check_result.split)
next
  case False
  then have "execute ops eng k fp h opts w = (fst (execute ops eng k fp h opts w), w)"
    by (auto simp add: execute_def accepted_def Let_def)
  then have "snd (execute ops eng k fp h opts w) = w"
    by (metis snd_conv)
  with False show ?thesis by (simp add: trail_def new_calls_def)
qed

lemma strip_done: "lead_length ps s = 0 \<Longrightarrow> strip ps s = s"
  by (subst strip.simps) simp



subsection \<open>Runs against a store that keeps its contract\<close>

lemma view_audit:
  assumes "keeps_contract ops view"
  shows "view (store (audit ops ev a w)) k = view (store w) k"
  using assms by (simp add: audit_def Let_def keeps_contract_def split: option.split)

lemma released_contract: "keeps_contract ops view \<Longrightarrow> released ops fk s"
  by (simp add: released_def keeps_contract_def split: option.split)

lemma handler_calls_finally_block:
  "handler_calls (finally_block ops eng fk opts w) = handler_calls w"
  by (simp add: finally_block_def handler_calls_audit split: option.split sum.split prod.split)

lemma view_finally_block:
  assumes "keeps_contract ops view" and "view (store w) fk = Done f r"
  shows "view (store (finally_block ops eng fk opts w)) fk = Done f r"
proof (cases "releaseLock ops")
  case None
  then show ?thesis
    by (simp add: finally_block_def view_audit [OF assms(1)] assms(2))
next
  case (Some rl)
  from assms(1) Some have a: "\<not> isl (fst (rl fk (store w)))"
    and b: "view (snd (rl fk (store w))) fk = Done f r"
    using assms(2) by (simp_all add: keeps_contract_def)
  obtain res s where rl: "rl fk (store w) = (res, s)" by (cases "rl fk (store w)")
  with a obtain u where "res = Inr u" by (cases res) auto
  with rl b show ?thesis
    by (simp add: finally_block_def Some view_audit [OF assms(1)])
qed

text \<open>
  When the handler wins the race and the lock is still held after the time it took, the
  \<open>try\<close> block commits the result.
\<close>

lemma try_block_commits:
  assumes "keeps_contract ops view" and "race h t = Inr v"
    and "view (elapsed ops (waited h t) (store w)) fk = In_progress"
  shows "fst (try_block ops eng fk fp h t r opts w) = Inr v
       \<and> handler_calls (snd (try_block ops eng fk fp h t r opts w)) = handler_calls w + 1
       \<and> view (store (snd (try_block ops eng fk fp h t r opts w))) fk = Done fp v"
proof -
  let ?s = "elapsed ops (waited h t) (store w)"
  from assms(1) assms(3)
  have a: "fst (commitResult ops fk fp v r ?s) = Inr ()"
    and b: "view (snd (commitResult ops fk fp v r ?s)) fk = Done fp v"
    by (simp_all add: keeps_contract_def)
  obtain res s where c: "commitResult ops fk fp v r ?s = (res, s)"
    by (cases "commitResult ops fk fp v r ?s")
  with a b have "res = Inr ()" and "view s fk = Done fp v" by simp_all
  with c show ?thesis
    by (simp add: try_block_def Let_def assms(2) store_pass handler_calls_audit
          handler_calls_pass view_audit [OF assms(1)])
qed

text \<open>The first call for a key, and a later call that finds the committed record.\<close>

lemma first_call_contract:
  assumes c: "keeps_contract ops view" and acc: "accepted eng k opts"
    and absent: "view (store w) (keyPrefix eng @ trim k) = Absent"
    and win: "race h (timeout_of opts) = Inr v"
    and held: "view (elapsed ops (waited h (timeout_of opts))
                       (commit_state ops eng (keyPrefix eng @ trim k) fp opts w))
                 (keyPrefix eng @ trim k) = In_progress"
  shows "fst (execute ops eng k fp h opts w) = Inr v
       \<and> handler_calls (snd (execute ops eng k fp h opts w)) = handler_calls w + 1
       \<and> trail w (snd (execute ops eng k fp h opts w)) = [Acquired, Stored, Lock_released]
       \<and> view (store (snd (execute ops eng k fp h opts w))) (keyPrefix eng @ trim k)
           = Done fp v"
proof -
  let ?fk = "keyPrefix eng @ trim k"
  let ?t = "case handlerTimeout opts of None \<Rightarrow> 30000 | Some t \<Rightarrow> t"
  let ?r = "case retentionOverride opts of None \<Rightarrow> retention eng | Some r \<Rightarrow> r"
  from c absent
  have "fst (atomicCheckAndLock ops ?fk fp (lockTtl eng) (store w)) = Inr Status_acquired"
    by (simp add: keeps_contract_def)
  then obtain s1
    where probe: "atomicCheckAndLock ops ?fk fp (lockTtl eng) (store w) = (Inr Status_acquired, s1)"
    by (cases "atomicCheckAndLock ops ?fk fp (lockTtl eng) (store w)") simp
  define wa where
    "wa = audit ops (make_event (w\<lparr>store := s1\<rparr>) ?fk Acquired (Some fp) None (metadata opts))
            (active_sink eng opts) (w\<lparr>store := s1\<rparr>)"
  have cs: "store wa = commit_state ops eng ?fk fp opts w"
    by (simp add: wa_def commit_state_def probe make_event_store)
  have calls: "handler_calls wa = handler_calls w"
    by (simp add: wa_def handler_calls_audit)
  have sinks: "sink_calls wa
     = sink_calls w @ [stamp eng opts (make_event w ?fk Acquired (Some fp) None (metadata opts))]"
    by (simp add: wa_def sink_calls_audit stamp_def make_event_store)
  define tb where "tb = try_block ops eng ?fk fp h ?t ?r opts wa"
  from win have win': "race h ?t = Inr v" by (simp add: timeout_of_def)
  from held have held': "view (elapsed ops (waited h ?t) (store wa)) ?fk = In_progress"
    by (simp add: cs timeout_of_def)
  note tbc = try_block_commits [OF c win' held', of eng fp ?r opts, folded tb_def]
  have ex: "execute ops eng k fp h opts w = (Inr v, finally_block ops eng ?fk opts (snd tb))"
    using tbc
    by (simp add: execute_accepted [OF acc] probe Let_def case_prod_beta wa_def [symmetric]
          tb_def [symmetric])
  have "trail w (snd (execute ops eng k fp h opts w)) = [Acquired, Stored, Lock_released]"
    using tbc
    by (simp add: ex trail_def new_calls_def finally_block_calls released_contract [OF c]
          tb_def try_block_calls sinks stamp_def action_safeEvent action_make_event)
  moreover have "view (store (snd (execute ops eng k fp h opts w))) ?fk = Done fp v"
    using tbc by (simp add: ex view_finally_block [OF c])
  ultimately show ?thesis
    using tbc by (simp add: ex handler_calls_finally_block calls)
qed



text \<open>
  When the lock was acquired and the \<open>try\<close> block returns a result, \<open>execute\<close> ends
  with the \<open>finally\<close> block.
\<close>

lemma execute_acquired:
  assumes acc: "accepted eng k opts"
    and probe: "atomicCheckAndLock ops (keyPrefix eng @ trim k) fp (lockTtl eng) (store w)
                  = (Inr Status_acquired, s1)"
    and tb: "fst (try_block ops eng (keyPrefix eng @ trim k) fp h (timeout_of opts)
                    (case retentionOverride opts of None \<Rightarrow> retention eng | Some r \<Rightarrow> r) opts
                    (audit ops
                       (make_event w (keyPrefix eng @ trim k) Acquired (Some fp) None
                          (metadata opts))
                       (active_sink eng opts) (w\<lparr>store := s1\<rparr>))) = Inr v"
  shows "snd (execute ops eng k fp h opts w)
           = finally_block ops eng (keyPrefix eng @ trim k) opts
               (snd (try_block ops eng (keyPrefix eng @ trim k) fp h (timeout_of opts)
                       (case retentionOverride opts of None \<Rightarrow> retention eng | Some r \<Rightarrow> r)
                       opts
                       (audit ops
                          (make_event w (keyPrefix eng @ trim k) Acquired (Some fp) None
                             (metadata opts))
                          (active_sink eng opts) (w\<lparr>store := s1\<rparr>))))"
  using tb
  by (simp add: execute_accepted [OF acc] probe Let_def case_prod_beta make_event_store
        timeout_of_def)

subsection \<open>Runs against the in-memory store\<close>

lemma toISOString_epoch: "toISOString 0 = epoch"
  by code_simp

lemma keeps_contract_MemoryStore: "keeps_contract MemoryStore mem_view"
  by (auto simp: keeps_contract_def MemoryStore_def mem_view_def mem_atomicCheckAndLock_def
        mem_commitResult_def mem_releaseLock_def mem_recordAudit_def setTimeout_def
        split: option.splits memory_record.splits)

text \<open>
  The in-memory \<open>releaseLock\<close> leaves a committed record as it is, and so does the
  callback of the lock timer.
\<close>

lemma mem_releaseLock_committed:
  "records m k = Some (Committed f r c) \<Longrightarrow> mem_releaseLock k m = (Inr (), m)"
  by (simp add: mem_releaseLock_def)

lemma fire_lock_expiry_committed:
  "records m k = Some (Committed f r c) \<Longrightarrow> fire (Lock_expiry k) m = m"
  by simp

text \<open>
  When the in-memory \<open>atomicCheckAndLock\<close> returns \<open>acquired\<close>, it has installed a
  processing record, and the next probe of the key returns \<open>locked\<close>.
\<close>

lemma mem_acquired_installs_lock:
  assumes "mem_atomicCheckAndLock k fp ttl m = (Inr Status_acquired, m')"
  shows "records m' k = Some (Processing (date_now m) ttl)
       \<and> fst (mem_atomicCheckAndLock k fp' ttl' m') = Inr Status_locked"
  using assms
  by (auto simp: mem_atomicCheckAndLock_def setTimeout_def
        split: option.splits memory_record.splits)

text \<open>
  The timers of the in-memory store. Only the operations of the store set timers, and
  only the passing of time removes them; the callback of a timer changes the records
  alone.
\<close>

lemma audit_MemoryStore_frame:
  "timers (store (audit MemoryStore ev a w)) = timers (store w)
   \<and> date_now (store (audit MemoryStore ev a w)) = date_now (store w)"
  by (simp add: audit_def Let_def MemoryStore_def mem_recordAudit_def)

lemma mem_releaseLock_frame:
  "fst (mem_releaseLock k m) = Inr ()
   \<and> timers (snd (mem_releaseLock k m)) = timers m
   \<and> date_now (snd (mem_releaseLock k m)) = date_now m"
  by (simp add: mem_releaseLock_def split: option.split memory_record.split)

lemma finally_block_MemoryStore_frame:
  "timers (store (finally_block MemoryStore eng fk opts w)) = timers (store w)
   \<and> date_now (store (finally_block MemoryStore eng fk opts w)) = date_now (store w)"
proof -
  have rl: "releaseLock MemoryStore = Some mem_releaseLock"
    by (simp add: MemoryStore_def)
  obtain res s where s: "mem_releaseLock fk (store w) = (res, s)"
    by (cases "mem_releaseLock fk (store w)")
  with mem_releaseLock_frame [of fk "store w"]
  have "res = Inr ()" and "timers s = timers (store w)" and "date_now s = date_now (store w)"
    by simp_all
  with s show ?thesis
    by (simp add: finally_block_def rl audit_MemoryStore_frame)
qed

lemma try_block_MemoryStore_frame:
  assumes "race h t = Inr v"
    and "mem_view (elapsed MemoryStore (waited h t) (store w)) fk = In_progress"
  shows "timers (store (snd (try_block MemoryStore eng fk fp h t r opts w)))
           = timers (elapsed MemoryStore (waited h t) (store w))
             @ [(date_now (elapsed MemoryStore (waited h t) (store w)) + timeout_delay r,
                 Retention_expiry fk)]
       \<and> date_now (store (snd (try_block MemoryStore eng fk fp h t r opts w)))
           = date_now (elapsed MemoryStore (waited h t) (store w))"
proof -
  let ?m = "elapsed MemoryStore (waited h t) (store w)"
  from assms(2) obtain a t' where "records ?m fk = Some (Processing a t')"
    by (auto simp: mem_view_def split: option.splits memory_record.splits)
  then have c: "commitResult MemoryStore fk fp v r ?m
           = (Inr (), setTimeout (Retention_expiry fk) r
                        (?m\<lparr>records := (records ?m)(fk \<mapsto> Committed fp v (toISOString (date_now ?m)))\<rparr>))"
    by (simp add: MemoryStore_def mem_commitResult_def)
  show ?thesis
    by (simp add: try_block_def Let_def assms(1) store_pass c audit_MemoryStore_frame
          setTimeout_def)
qed

lemma fire_frame: "timers (fire t m) = timers m \<and> date_now (fire t m) = date_now m"
  by (cases t) (simp_all split: option.split memory_record.split)

lemma fold_fire_frame:
  "timers (fold (\<lambda>t. fire (snd t)) ts m) = timers m
   \<and> date_now (fold (\<lambda>t. fire (snd t)) ts m) = date_now m"
  by (induction ts arbitrary: m) (simp_all add: fire_frame)

lemma mem_elapse_frame:
  "timers (mem_elapse d m) = filter (\<lambda>t. \<not> fst t \<le> date_now m + d) (timers m)
   \<and> date_now (mem_elapse d m) = date_now m + d"
  by (simp add: mem_elapse_def fold_fire_frame)

lemma timers_elapsed_MemoryStore:
  "set (timers (elapsed MemoryStore d m)) \<subseteq> set (timers m)"
  by (simp add: elapsed_def MemoryStore_def mem_elapse_frame)

text \<open>
  A committed record stays while no retention timer of its key comes due; the lock timer
  of the key does not remove it.
\<close>

lemma fold_fire_keeps_committed:
  assumes "records m k = Some (Committed f r c)"
    and "Retention_expiry k \<notin> snd ` set ts"
  shows "records (fold (\<lambda>t. fire (snd t)) ts m) k = Some (Committed f r c)"
  using assms
proof (induction ts arbitrary: m)
  case Nil
  then show ?case by simp
next
  case (Cons t ts)
  have "records (fire (snd t) m) k = Some (Committed f r c)"
  proof (cases "snd t")
    case (Lock_expiry k')
    with Cons.prems(1) show ?thesis
      by (auto split: option.split memory_record.split)
  next
    case (Retention_expiry k')
    with Cons.prems have "k' \<noteq> k" by force
    with Retention_expiry Cons.prems(1) show ?thesis
      by (auto split: option.split memory_record.split)
  qed
  moreover from Cons.prems(2) have "Retention_expiry k \<notin> snd ` set ts" by simp
  ultimately show ?case using Cons.IH by simp
qed

lemma mem_elapse_keeps_committed:
  assumes "records m k = Some (Committed f r c)"
    and "\<forall>t \<in> set (timers m). snd t = Retention_expiry k \<longrightarrow> date_now m + d < fst t"
  shows "records (mem_elapse d m) k = Some (Committed f r c)"
  unfolding mem_elapse_def
proof (rule fold_fire_keeps_committed)
  show "records (m\<lparr>timers := filter (\<lambda>t. \<not> fst t \<le> date_now m + d) (timers m),
                   date_now := date_now m + d\<rparr>) k = Some (Committed f r c)"
    using assms(1) by simp
  show "Retention_expiry k \<notin> snd ` set (sort_key fst (filter (\<lambda>t. fst t \<le> date_now m + d) (timers m)))"
    using assms(2) by force
qed

text \<open>
  On an in-memory store with no timer pending and no record for the key: the lock is
  still held when the handler settles if the handler takes less than the delay of the lock
  timer; and the committed record is still there at the second call if the time between
  the calls is less than the delay of the retention timer.
\<close>

lemma mem_lock_outlives_handler:
  assumes "records (store w) fk = None" and "timers (store w) = []"
    and "d < timeout_delay (lockTtl eng)"
  shows "mem_view (elapsed MemoryStore d (commit_state MemoryStore eng fk fp opts w)) fk
           = In_progress"
  using assms
  by (simp add: commit_state_def MemoryStore_def audit_def Let_def mem_atomicCheckAndLock_def
        setTimeout_def mem_recordAudit_def elapsed_def mem_elapse_def mem_view_def)

lemma mem_record_outlives_gap:
  assumes acc: "accepted eng k opts"
    and absent: "records (store w) (keyPrefix eng @ trim k) = None"
    and fresh: "timers (store w) = []"
    and win: "race h (timeout_of opts) = Inr v"
    and short: "waited h (timeout_of opts) < timeout_delay (lockTtl eng)"
    and gap: "gap < timeout_delay
                      (case retentionOverride opts of None \<Rightarrow> retention eng | Some r \<Rightarrow> r)"
  shows "mem_view (elapsed MemoryStore gap (store (snd (execute MemoryStore eng k fp h opts w))))
           (keyPrefix eng @ trim k)
         = mem_view (store (snd (execute MemoryStore eng k fp h opts w)))
             (keyPrefix eng @ trim k)"
proof (cases "0 < gap")
  case False
  then show ?thesis by (simp add: elapsed_def)
next
  case True
  let ?fk = "keyPrefix eng @ trim k"
  let ?t = "timeout_of opts"
  let ?r = "case retentionOverride opts of None \<Rightarrow> retention eng | Some r \<Rightarrow> r"
  let ?s1 = "(store w)\<lparr>records := (records (store w))(?fk \<mapsto> Processing (date_now (store w)) (lockTtl eng)),
                        timers := [(date_now (store w) + timeout_delay (lockTtl eng), Lock_expiry ?fk)]\<rparr>"
  let ?wa = "audit MemoryStore (make_event w ?fk Acquired (Some fp) None (metadata opts))
               (active_sink eng opts) (w\<lparr>store := ?s1\<rparr>)"
  let ?tb = "try_block MemoryStore eng ?fk fp h ?t ?r opts ?wa"
  let ?w1 = "snd (execute MemoryStore eng k fp h opts w)"
  have probe: "atomicCheckAndLock MemoryStore ?fk fp (lockTtl eng) (store w)
                 = (Inr Status_acquired, ?s1)"
    using absent fresh by (simp add: MemoryStore_def mem_atomicCheckAndLock_def setTimeout_def)
  have absent': "mem_view (store w) ?fk = Absent"
    using absent by (simp add: mem_view_def)
  note held = mem_lock_outlives_handler [OF absent fresh short, of fp opts]
  have cs: "store ?wa = commit_state MemoryStore eng ?fk fp opts w"
    by (simp add: commit_state_def probe make_event_store)
  from held have held': "mem_view (elapsed MemoryStore (waited h ?t) (store ?wa)) ?fk = In_progress"
    by (simp add: cs)
  note tbc = try_block_commits [OF keeps_contract_MemoryStore win held', of eng fp ?r opts]
  from tbc have "fst ?tb = Inr v" by simp
  note ex = execute_acquired [OF acc probe this]
  note tbf = try_block_MemoryStore_frame [OF win held', of eng fp ?r opts]
  have now: "date_now (store ?w1) = date_now (elapsed MemoryStore (waited h ?t) (store ?wa))"
    by (simp add: ex finally_block_MemoryStore_frame tbf)
  have tm: "timers (store ?w1)
      = timers (elapsed MemoryStore (waited h ?t) (store ?wa))
        @ [(date_now (store ?w1) + timeout_delay ?r, Retention_expiry ?fk)]"
    by (simp add: ex finally_block_MemoryStore_frame tbf)
  have "set (timers (elapsed MemoryStore (waited h ?t) (store ?wa))) \<subseteq> set (timers (store ?wa))"
    by (rule timers_elapsed_MemoryStore)
  moreover have "timers (store ?wa)
                   = [(date_now (store w) + timeout_delay (lockTtl eng), Lock_expiry ?fk)]"
    by (simp add: audit_MemoryStore_frame)
  ultimately have old: "\<forall>t \<in> set (timers (elapsed MemoryStore (waited h ?t) (store ?wa))).
                          snd t = Lock_expiry ?fk"
    by auto
  have late: "\<forall>t \<in> set (timers (store ?w1)).
      snd t = Retention_expiry ?fk \<longrightarrow> date_now (store ?w1) + gap < fst t"
  proof (intro ballI impI)
    fix t
    assume "t \<in> set (timers (store ?w1))" and r: "snd t = Retention_expiry ?fk"
    then have "t \<in> set (timers (elapsed MemoryStore (waited h ?t) (store ?wa)))
               \<or> t = (date_now (store ?w1) + timeout_delay ?r, Retention_expiry ?fk)"
      by (subst (asm) tm) auto
    with old r have "t = (date_now (store ?w1) + timeout_delay ?r, Retention_expiry ?fk)"
      by auto
    with gap show "date_now (store ?w1) + gap < fst t" by simp
  qed
  note fc = first_call_contract [OF keeps_contract_MemoryStore acc absent' win held]
  then have "mem_view (store ?w1) ?fk = Done fp v" by simp
  then obtain c where c: "records (store ?w1) ?fk = Some (Committed fp v c)"
    by (auto simp: mem_view_def split: option.splits memory_record.splits)
  from mem_elapse_keeps_committed [OF c late]
  have "records (mem_elapse gap (store ?w1)) ?fk = Some (Committed fp v c)" .
  with c True show ?thesis
    by (simp add: elapsed_def MemoryStore_def mem_view_def)
qed

section \<open>Sorting and the canonical form\<close>

lemma mset_sort_insert: "mset (sort_insert cf x ys) = add_mset x (mset ys)"
  by (induction ys) auto

lemma set_sort_insert: "set (sort_insert cf x ys) = insert x (set ys)"
  by (induction ys) auto

lemma mset_array_sort: "mset (array_sort cf xs) = mset xs"
  by (induction xs) (simp_all add: array_sort_def mset_sort_insert)

lemma set_array_sort: "set (array_sort cf xs) = set xs"
  using mset_array_sort [of cf xs] by (metis set_mset_mset)

lemma ordered_on_subset: "ordered_on cf A \<Longrightarrow> B \<subseteq> A \<Longrightarrow> ordered_on cf B"
  unfolding ordered_on_def by blast

lemma sorted_sort_insert:
  assumes "ordered_on cf (insert x (set ys))" and "sorted_wrt (\<lambda>a b. cf a b \<le> 0) ys"
  shows "sorted_wrt (\<lambda>a b. cf a b \<le> 0) (sort_insert cf x ys)"
  using assms
proof (induction ys)
  case Nil
  then show ?case by simp
next
  case (Cons y ys)
  have sub: "ordered_on cf (insert x (set ys))"
    using Cons.prems(1) by (rule ordered_on_subset) auto
  show ?case
  proof (cases "cf x y \<le> 0")
    case True
    have "cf x z \<le> 0" if "z \<in> set ys" for z
    proof -
      from Cons.prems(2) that have "cf y z \<le> 0" by simp
      with True Cons.prems(1) that show ?thesis
        unfolding ordered_on_def by (metis insert_iff list.set_intros(1) list.set_intros(2))
    qed
    with True Cons.prems(2) show ?thesis by simp
  next
    case False
    with Cons.prems(1) have yx: "cf y x \<le> 0"
      unfolding ordered_on_def by (metis insert_iff list.set_intros(1))
    from Cons.IH [OF sub] Cons.prems(2)
    have "sorted_wrt (\<lambda>a b. cf a b \<le> 0) (sort_insert cf x ys)" by simp
    moreover have "\<forall>z \<in> set (sort_insert cf x ys). cf y z \<le> 0"
      using yx Cons.prems(2) by (auto simp: set_sort_insert)
    ultimately show ?thesis using False by simp
  qed
qed

lemma sorted_array_sort:
  assumes "ordered_on cf (set xs)"
  shows "sorted_wrt (\<lambda>a b. cf a b \<le> 0) (array_sort cf xs)"
  using assms
proof (induction xs)
  case Nil
  then show ?case by (simp add: array_sort_def)
next
  case (Cons x xs)
  have "ordered_on cf (set xs)"
    using Cons.prems by (rule ordered_on_subset) auto
  then have "sorted_wrt (\<lambda>a b. cf a b \<le> 0) (array_sort cf xs)" by (rule Cons.IH)
  moreover have "ordered_on cf (insert x (set (array_sort cf xs)))"
    using Cons.prems by (simp add: set_array_sort)
  ultimately have "sorted_wrt (\<lambda>a b. cf a b \<le> 0) (sort_insert cf x (array_sort cf xs))"
    by (rule sorted_sort_insert [rotated])
  then show ?case by (simp add: array_sort_def)
qed

lemma sorted_wrt_unique:
  assumes "sorted_wrt (\<lambda>a b. cf a b \<le> 0) xs" and "sorted_wrt (\<lambda>a b. cf a b \<le> 0) ys"
    and "mset xs = mset ys" and "ordered_on cf (set xs)"
  shows "xs = ys"
  using assms
proof (induction xs arbitrary: ys)
  case Nil
  then show ?case by simp
next
  case (Cons x xs)
  from Cons.prems(3) obtain y ys' where ys: "ys = y # ys'"
    by (cases ys) auto
  have sets: "set (x # xs) = set ys"
    using Cons.prems(3) by (metis set_mset_mset)
  have xy: "cf x y \<le> 0"
  proof (cases "y = x")
    case True
    with Cons.prems(4) show ?thesis unfolding ordered_on_def by auto
  next
    case False
    with sets ys have "y \<in> set xs" by auto
    with Cons.prems(1) show ?thesis by simp
  qed
  have yx: "cf y x \<le> 0"
  proof (cases "y = x")
    case True
    with Cons.prems(4) show ?thesis unfolding ordered_on_def by auto
  next
    case False
    with sets ys have "x \<in> set ys'" by auto
    with Cons.prems(2) ys show ?thesis by simp
  qed
  from sets ys have "y \<in> set (x # xs)" by auto
  with xy yx Cons.prems(4) have eq: "x = y"
    unfolding ordered_on_def by (metis list.set_intros(1))
  with Cons.prems(3) ys have m: "mset xs = mset ys'" by simp
  have "ordered_on cf (set xs)"
    using Cons.prems(4) by (rule ordered_on_subset) auto
  with Cons.IH [of ys'] Cons.prems(1,2) ys m have "xs = ys'" by simp
  with eq ys show ?case by simp
qed

lemma array_sort_perm:
  assumes "mset xs = mset ys" and "ordered_on cf (set xs)"
  shows "array_sort cf xs = array_sort cf ys"
proof (rule sorted_wrt_unique [where cf = cf])
  have sets: "set xs = set ys" using assms(1) by (metis set_mset_mset)
  show "sorted_wrt (\<lambda>a b. cf a b \<le> 0) (array_sort cf xs)"
    using assms(2) by (rule sorted_array_sort)
  show "sorted_wrt (\<lambda>a b. cf a b \<le> 0) (array_sort cf ys)"
    using assms(2) sets by (simp add: sorted_array_sort)
  show "mset (array_sort cf xs) = mset (array_sort cf ys)"
    using assms(1) by (simp add: mset_array_sort)
  show "ordered_on cf (set (array_sort cf xs))"
    using assms(2) by (simp add: set_array_sort)
qed

lemma sort_insert_map:
  assumes "\<And>a b. cf (g a) (g b) = cf a b"
  shows "map g (sort_insert cf x ys) = sort_insert cf (g x) (map g ys)"
  by (induction ys) (simp_all add: assms)

lemma array_sort_map:
  assumes "\<And>a b. cf (g a) (g b) = cf a b"
  shows "map g (array_sort cf xs) = array_sort cf (map g xs)"
  by (induction xs) (simp_all add: array_sort_def sort_insert_map [where cf = cf and g = g, OF assms])

text \<open>A comparator that orders the keys of a list of entries orders the entries.\<close>

lemma ordered_entries:
  assumes "orders lc ks" and "fst ` set es \<subseteq> set ks" and "distinct (map fst es)"
  shows "ordered_on (\<lambda>a b. lc (fst a) (fst b)) (set es)"
  unfolding ordered_on_def
proof (intro ballI conjI impI)
  fix a b
  assume a: "a \<in> set es" and b: "b \<in> set es"
  from a b assms(2) have ka: "fst a \<in> set ks" and kb: "fst b \<in> set ks" by auto
  from assms(1) ka kb show "lc (fst a) (fst b) \<le> 0 \<or> lc (fst b) (fst a) \<le> 0"
    unfolding orders_def by blast
  {
    assume "lc (fst a) (fst b) \<le> 0 \<and> lc (fst b) (fst a) \<le> 0"
    with assms(1) ka kb have "fst a = fst b" unfolding orders_def by blast
    moreover from assms(3) have "inj_on fst (set es)" by (simp add: distinct_map)
    ultimately show "a = b" using a b by (simp add: inj_on_def)
  }
  fix c
  assume c: "c \<in> set es" and "lc (fst a) (fst b) \<le> 0 \<and> lc (fst b) (fst c) \<le> 0"
  moreover from c assms(2) have "fst c \<in> set ks" by auto
  ultimately show "lc (fst a) (fst c) \<le> 0"
    using assms(1) ka kb unfolding orders_def by blast
qed

lemma orders_subset: "orders lc ks \<Longrightarrow> set ks' \<subseteq> set ks \<Longrightarrow> orders lc ks'"
  unfolding orders_def by blast

lemma normalize_reordered:
  assumes "reordered p p'" and "orders lc (keys_of p)"
  shows "normalize_value lc p = normalize_value lc p'"
  using assms
proof (induction rule: reordered.induct)
  case (atom v)
  show ?case by simp
next
  case (array xs ys)
  from array.IH array.prems have "map (normalize_value lc) xs = map (normalize_value lc) ys"
  proof (induction rule: list_all2_induct)
    case Nil
    show ?case by simp
  next
    case (Cons x xs y ys)
    have "orders lc (keys_of x)"
      by (rule orders_subset [OF Cons.prems]) simp
    moreover have "orders lc (keys_of (JArr xs))"
      by (rule orders_subset [OF Cons.prems]) simp
    ultimately show ?case using Cons.hyps Cons.IH by simp
  qed
  then show ?case by simp
next
  case (object es fs' fs)
  let ?N = "\<lambda>e. (fst e, normalize_value lc (snd e))"
  let ?cf = "\<lambda>a b :: string \<times> js_value. lc (fst a) (fst b)"
  from object.IH object.prems have same: "map ?N es = map ?N fs'"
  proof (induction rule: list_all2_induct)
    case Nil
    show ?case by simp
  next
    case (Cons e es f fs)
    have "orders lc (keys_of (snd e))"
      by (rule orders_subset [OF Cons.prems]) auto
    moreover have "orders lc (keys_of (JObj es))"
      by (rule orders_subset [OF Cons.prems]) auto
    ultimately show ?case using Cons.hyps Cons.IH by simp
  qed
  have ord_es: "ordered_on ?cf (set (map ?N es))"
  proof (rule ordered_entries [of lc "keys_of (JObj es)"])
    show "orders lc (keys_of (JObj es))" by (rule object.prems)
    show "fst ` set (map ?N es) \<subseteq> set (keys_of (JObj es))" by force
    show "distinct (map fst (map ?N es))" using object.hyps(1) by (simp add: comp_def)
  qed
  have "map ?N (array_sort ?cf es) = array_sort ?cf (map ?N es)"
    by (rule array_sort_map) simp
  also have "\<dots> = array_sort ?cf (map ?N fs)"
  proof (rule array_sort_perm [OF _ ord_es])
    have "mset (map ?N fs) = mset (map ?N fs')" using object.hyps(2) by simp
    with same show "mset (map ?N es) = mset (map ?N fs)" by simp
  qed
  also have "\<dots> = map ?N (array_sort ?cf fs)"
    by (rule array_sort_map [symmetric]) simp
  finally show ?case by simp
qed

lemma update_fresh: "k \<notin> fst ` set al \<Longrightarrow> AList.update k v al = al @ [(k, v)]"
  by (induction al) auto

lemma fold_update_fresh:
  assumes "distinct (map fst xs)" and "fst ` set xs \<inter> fst ` set acc = {}"
  shows "fold (\<lambda>e obj. AList.update (fst e) (snd e) obj) xs acc = acc @ xs"
  using assms
proof (induction xs arbitrary: acc)
  case Nil
  show ?case by simp
next
  case (Cons x xs)
  from Cons.prems(2) have fresh: "fst x \<notin> fst ` set acc" by auto
  have "fst ` set xs \<inter> fst ` set (acc @ [x]) = {}"
    using Cons.prems by auto
  with Cons.IH [of "acc @ [x]"] Cons.prems(1) fresh show ?case
    by (simp add: update_fresh)
qed

lemma fromEntries_distinct:
  "distinct (map fst xs) \<Longrightarrow> fromEntries xs = own_property_order xs"
  by (simp add: fromEntries_def fold_update_fresh)

lemma canonical_keys_own_property_order:
  assumes "sorted_wrt (\<lambda>a b. lc (fst a) (fst b) \<le> 0) xs"
  shows "canonical_keys lc (map fst (own_property_order xs))"
proof -
  let ?I = "sort_key (\<lambda>e. digits_value (fst e)) (filter (\<lambda>e. is_array_index (fst e)) xs)"
  let ?O = "filter (\<lambda>e. \<not> is_array_index (fst e)) xs"
  have i: "filter is_array_index (map fst ?I) = map fst ?I"
    by (rule filter_True) auto
  have o: "filter is_array_index (map fst ?O) = []"
    by (simp add: filter_empty_conv)
  have i': "filter (\<lambda>k. \<not> is_array_index k) (map fst ?I) = []"
    by (simp add: filter_empty_conv)
  have o': "filter (\<lambda>k. \<not> is_array_index k) (map fst ?O) = map fst ?O"
    by (rule filter_True) auto
  have "sorted (map digits_value (map fst ?I))"
    using sorted_sort_key [of "\<lambda>e. digits_value (fst e)"] by (simp add: comp_def)
  moreover have "sorted_wrt (\<lambda>a b. lc a b \<le> 0) (map fst ?O)"
    using assms by (simp add: sorted_wrt_map sorted_wrt_filter)
  ultimately show ?thesis
    by (simp add: canonical_keys_def own_property_order_def i o i' o')
qed

lemma canonical_reordered:
  assumes "reordered p p'" and "orders lc (keys_of p)"
  shows "canonical lc (normalize_value lc p)"
  using assms
proof (induction rule: reordered.induct)
  case (atom v)
  then show ?case by (cases v) simp_all
next
  case (array xs ys)
  from array.IH array.prems have "list_all (\<lambda>x. canonical lc (normalize_value lc x)) xs"
  proof (induction rule: list_all2_induct)
    case Nil
    show ?case by simp
  next
    case (Cons x xs y ys)
    have "orders lc (keys_of x)"
      by (rule orders_subset [OF Cons.prems]) simp
    moreover have "orders lc (keys_of (JArr xs))"
      by (rule orders_subset [OF Cons.prems]) simp
    ultimately show ?case using Cons.hyps Cons.IH by simp
  qed
  then show ?case by (simp add: list_all_iff)
next
  case (object es fs' fs)
  let ?N = "\<lambda>e. (fst e, normalize_value lc (snd e))"
  let ?cf = "\<lambda>a b :: string \<times> js_value. lc (fst a) (fst b)"
  let ?S = "map ?N (array_sort ?cf es)"
  from object.IH object.prems have vals: "list_all (\<lambda>e. canonical lc (normalize_value lc (snd e))) es"
  proof (induction rule: list_all2_induct)
    case Nil
    show ?case by simp
  next
    case (Cons e es f fs)
    have "orders lc (keys_of (snd e))"
      by (rule orders_subset [OF Cons.prems]) auto
    moreover have "orders lc (keys_of (JObj es))"
      by (rule orders_subset [OF Cons.prems]) auto
    ultimately show ?case using Cons.hyps Cons.IH by simp
  qed
  have "ordered_on ?cf (set es)"
  proof (rule ordered_entries [of lc "keys_of (JObj es)"])
    show "orders lc (keys_of (JObj es))" by (rule object.prems)
    show "fst ` set es \<subseteq> set (keys_of (JObj es))" by force
    show "distinct (map fst es)" by (rule object.hyps(1))
  qed
  then have "sorted_wrt (\<lambda>a b. ?cf a b \<le> 0) (array_sort ?cf es)"
    by (rule sorted_array_sort)
  then have sorted: "sorted_wrt (\<lambda>a b. lc (fst a) (fst b) \<le> 0) ?S"
    by (simp add: sorted_wrt_map)
  have "mset (map fst (array_sort ?cf es)) = mset (map fst es)"
    by (simp add: mset_array_sort)
  with object.hyps(1) have "distinct (map fst (array_sort ?cf es))"
    by (metis distinct_count_atmost_1 set_mset_mset)
  then have dist: "distinct (map fst ?S)" by (simp add: comp_def)
  have "canonical_keys lc (map fst (fromEntries ?S))"
    using sorted dist by (simp add: fromEntries_distinct canonical_keys_own_property_order)
  moreover have "list_all (\<lambda>e. canonical lc (snd e)) (fromEntries ?S)"
    using vals dist
    by (auto simp: fromEntries_distinct list_all_iff set_own_property_order set_array_sort)
  ultimately show ?case by simp
qed

section \<open>The claims\<close>

subsection \<open>Order of the audit events\<close>

text \<open>
  C6, as stated: within one \<open>execute\<close> call the audit events are \<open>acquired\<close>, then
  exactly one of \<open>stored\<close>, \<open>timeout\<close>, \<open>error\<close>, then \<open>lock_released\<close>, or else
  exactly one of \<open>hit\<close>, \<open>locked\<close>, \<open>fingerprint_mismatch\<close>, and no other sequence.
  This fails: a call with the empty key is rejected before anything is audited, and with
  a store whose \<open>releaseLock\<close> rejects, \<open>acquired\<close> and \<open>stored\<close> are not followed by
  \<open>lock_released\<close>.
\<close>

theorem audit_order_counterexample:
  "\<not> permitted (trail (start new_MemoryStore)
        (snd (execute MemoryStore test_engine [] ''fp'' (Resolves success) no_options
                (start new_MemoryStore))))
   \<and> trail (start new_MemoryStore)
        (snd (execute rejectingRelease test_engine ''k1'' ''fp'' (Resolves success) no_options
                (start new_MemoryStore))) = [Acquired, Stored]
   \<and> \<not> permitted [Acquired, Stored]"
  by code_simp

text \<open>
  C6, as amended: the audit callbacks of one \<open>execute\<close> call are called in one of these
  orders: not at all, which happens exactly when the call is rejected by the validation or
  the store's \<open>atomicCheckAndLock\<close> throws, and then the call fails; exactly one of \<open>hit\<close>, \<open>locked\<close>,
  \<open>fingerprint_mismatch\<close>; \<open>acquired\<close>, exactly one of \<open>stored\<close>, \<open>timeout\<close>,
  \<open>error\<close>, and \<open>lock_released\<close>; or \<open>acquired\<close> and exactly one of \<open>stored\<close>,
  \<open>timeout\<close>, \<open>error\<close> without \<open>lock_released\<close>, which needs a \<open>releaseLock\<close>
  that throws.
\<close>

theorem audit_order:
  "(trail w (snd (execute ops eng k fp h opts w)) = []
    \<or> permitted (trail w (snd (execute ops eng k fp h opts w)))
    \<or> trail w (snd (execute ops eng k fp h opts w))
         \<in> set [[Acquired, Stored], [Acquired, Timeout], [Acquired, Error]])
   \<and> (trail w (snd (execute ops eng k fp h opts w)) = []
        \<longleftrightarrow> (\<not> accepted eng k opts
             \<or> isl (fst (atomicCheckAndLock ops (keyPrefix eng @ trim k) fp (lockTtl eng)
                            (store w)))))
   \<and> (trail w (snd (execute ops eng k fp h opts w)) = []
        \<longrightarrow> isl (fst (execute ops eng k fp h opts w)))
   \<and> ((\<forall>fk s. released ops fk s)
        \<longrightarrow> trail w (snd (execute ops eng k fp h opts w)) = []
            \<or> permitted (trail w (snd (execute ops eng k fp h opts w))))"
proof -
  have one: "trail w (snd (execute ops eng k fp h opts w)) = []
    \<or> permitted (trail w (snd (execute ops eng k fp h opts w)))
    \<or> trail w (snd (execute ops eng k fp h opts w))
         \<in> set [[Acquired, Stored], [Acquired, Timeout], [Acquired, Error]]"
    using trail_execute [of w ops eng k fp h opts] by (auto simp: permitted_def)
  note two = trail_execute_empty_iff [of w ops eng k fp h opts]
  note three = trail_execute_empty [of w ops eng k fp h opts]
  have four: "trail w (snd (execute ops eng k fp h opts w)) = []
            \<or> permitted (trail w (snd (execute ops eng k fp h opts w)))"
    if "\<forall>fk s. released ops fk s"
  proof -
    from that have "\<And>fk s. released ops fk s" by blast
    from trail_execute_released [OF this, of w eng k fp h opts]
    show ?thesis by (auto simp: permitted_def)
  qed
  from one two three four show ?thesis by blast
qed

theorem audit_order_witness:
  "(\<forall>fk s. released MemoryStore fk s)
   \<and> trail (start new_MemoryStore)
        (snd (execute MemoryStore test_engine ''k1'' ''fp'' (Resolves success) no_options
                (start new_MemoryStore))) \<noteq> []
   \<and> permitted (trail (start new_MemoryStore)
        (snd (execute MemoryStore test_engine ''k1'' ''fp'' (Resolves success) no_options
                (start new_MemoryStore))))"
proof -
  have a: "\<forall>fk s. released MemoryStore fk s"
    by (simp add: released_MemoryStore)
  have b: "trail (start new_MemoryStore)
        (snd (execute MemoryStore test_engine ''k1'' ''fp'' (Resolves success) no_options
                (start new_MemoryStore))) \<noteq> []"
    by code_simp
  from audit_order [of "start new_MemoryStore" MemoryStore test_engine "''k1''" "''fp''"
      "Resolves success" no_options] a b
  show ?thesis by blast
qed

subsection \<open>No audit event is a miss\<close>

text \<open>
  C10: no audit event of an \<open>execute\<close> call has the action \<open>miss\<close>; the action of every
  event is one of \<open>hit\<close>, \<open>acquired\<close>, \<open>locked\<close>, \<open>fingerprint_mismatch\<close>, \<open>stored\<close>,
  \<open>error\<close>, \<open>timeout\<close>, \<open>lock_released\<close>.
\<close>

theorem never_miss:
  "Miss \<notin> set (trail w (snd (execute ops eng k fp h opts w)))
   \<and> set (trail w (snd (execute ops eng k fp h opts w)))
       \<subseteq> {Hit, Acquired, Locked, Fingerprint_mismatch, Stored, Error, Timeout, Lock_released}"
  using trail_execute [of w ops eng k fp h opts] by auto

theorem never_miss_witness:
  "trail (start new_MemoryStore)
     (snd (execute MemoryStore test_engine ''k1'' ''fp'' (Resolves success) no_options
             (start new_MemoryStore))) = [Acquired, Stored, Lock_released]
   \<and> Miss \<notin> set (trail (start new_MemoryStore)
        (snd (execute MemoryStore test_engine ''k1'' ''fp'' (Resolves success) no_options
                (start new_MemoryStore))))"
proof -
  have a: "trail (start new_MemoryStore)
     (snd (execute MemoryStore test_engine ''k1'' ''fp'' (Resolves success) no_options
             (start new_MemoryStore))) = [Acquired, Stored, Lock_released]"
    by code_simp
  from never_miss [of "start new_MemoryStore" MemoryStore test_engine "''k1''" "''fp''"
      "Resolves success" no_options] a
  show ?thesis by blast
qed

subsection \<open>Redaction of the metadata\<close>

text \<open>
  C7: whatever metadata the caller supplies, no event given to an audit callback by
  \<open>execute\<close> has, in its metadata, a key that matches the pattern
  \<open>/(password|token|secret|card|cvv|pin|ssn|full.?name|email|phone)/i\<close>.
\<close>

theorem metadata_redacted:
  "\<forall>c \<in> set (new_calls w (snd (execute ops eng k fp h opts w))).
     \<forall>m. ev_metadata (snd c) = Some m \<longrightarrow> (\<forall>e \<in> set m. \<not> sensitive_key (fst e))"
proof (intro ballI allI impI)
  fix c m e
  assume c: "c \<in> set (new_calls w (snd (execute ops eng k fp h opts w)))"
    and m: "ev_metadata (snd c) = Some m" and e: "e \<in> set m"
  from safe_execute [of eng opts w ops k fp h] c have "snd c \<in> range safeEvent"
    by (simp add: list_all_iff)
  then obtain ev where "snd c = safeEvent ev" by blast
  with m e show "\<not> sensitive_key (fst e)" by (simp add: safeEvent_keys)
qed

theorem metadata_redacted_witness:
  "map (\<lambda>c. map_option (map fst) (ev_metadata (snd c)))
     (new_calls (start new_MemoryStore)
        (snd (execute MemoryStore test_engine ''pii-filter-key'' ''fp'' (Resolves success)
                (no_options\<lparr>metadata := Some pii_metadata\<rparr>) (start new_MemoryStore))))
     = [Some [''requestId'', ''clientId'', ''ip''], Some [''requestId'', ''clientId'', ''ip''],
        Some [''requestId'', ''clientId'', ''ip'']]
   \<and> list_all
        (\<lambda>c. case ev_metadata (snd c) of
                None \<Rightarrow> True
              | Some m \<Rightarrow> list_all (\<lambda>e. \<not> sensitive_key (fst e)) m)
        (new_calls (start new_MemoryStore)
           (snd (execute MemoryStore test_engine ''pii-filter-key'' ''fp'' (Resolves success)
                   (no_options\<lparr>metadata := Some pii_metadata\<rparr>) (start new_MemoryStore))))"
proof -
  have a: "map (\<lambda>c. map_option (map fst) (ev_metadata (snd c)))
     (new_calls (start new_MemoryStore)
        (snd (execute MemoryStore test_engine ''pii-filter-key'' ''fp'' (Resolves success)
                (no_options\<lparr>metadata := Some pii_metadata\<rparr>) (start new_MemoryStore))))
     = [Some [''requestId'', ''clientId'', ''ip''], Some [''requestId'', ''clientId'', ''ip''],
        Some [''requestId'', ''clientId'', ''ip'']]"
    by code_simp
  have b: "list_all
        (\<lambda>c. case ev_metadata (snd c) of
                None \<Rightarrow> True
              | Some m \<Rightarrow> list_all (\<lambda>e. \<not> sensitive_key (fst e)) m)
        (new_calls (start new_MemoryStore)
           (snd (execute MemoryStore test_engine ''pii-filter-key'' ''fp'' (Resolves success)
                   (no_options\<lparr>metadata := Some pii_metadata\<rparr>) (start new_MemoryStore))))"
    using metadata_redacted [of "start new_MemoryStore" MemoryStore test_engine
        "''pii-filter-key''" "''fp''" "Resolves success"
        "no_options\<lparr>metadata := Some pii_metadata\<rparr>"]
    by (auto simp: list_all_iff split: option.split)
  show ?thesis using a b by (rule conjI)
qed

subsection \<open>A duplicate call does not run the handler again\<close>




text \<open>
  The in-memory store keeps the contract (\<open>keeps_contract_MemoryStore\<close>). When it has
  no timer pending, the lock is still held when the handler resolves if the handler takes
  less than the delay of the lock timer (\<open>mem_lock_outlives_handler\<close>), and the
  committed record does not change between the calls if the time between them is less
  than the delay of the retention timer (\<open>mem_record_outlives_gap\<close>).

  The two calls of the test "should execute handler exactly once for duplicate requests",
  whose handler settles at once and which follow each other at once.
\<close>

lemma duplicate_requests_test:
  "fst (execute MemoryStore test_engine ''test-key'' ''fp'' (Resolves success) no_options
          (snd (execute MemoryStore test_engine ''test-key'' ''fp'' (Resolves success)
                  no_options (start new_MemoryStore)))) = Inr success
   \<and> handler_calls
        (snd (execute MemoryStore test_engine ''test-key'' ''fp'' (Resolves success) no_options
                (snd (execute MemoryStore test_engine ''test-key'' ''fp'' (Resolves success)
                        no_options (start new_MemoryStore))))) = 1
   \<and> trail (start new_MemoryStore)
        (snd (execute MemoryStore test_engine ''test-key'' ''fp'' (Resolves success) no_options
                (snd (execute MemoryStore test_engine ''test-key'' ''fp'' (Resolves success)
                        no_options (start new_MemoryStore)))))
       = [Acquired, Stored, Lock_released, Hit]"
  by code_simp

subsection \<open>Replay with another fingerprint\<close>

text \<open>
  C2 says that for a key whose record is committed with fingerprint \<open>F\<close>, \<open>execute\<close>
  with another fingerprint raises \<open>FingerprintMismatch\<close>, does not invoke the handler,
  and that the error carries \<open>F\<close>. On the in-memory store the call does raise the error
  without invoking the handler, and the audited event carries \<open>F\<close>; but the error is
  built from the message alone, and its \<open>storedFingerprint\<close> is absent.
\<close>

theorem mismatch_error_without_stored_fingerprint:
  assumes "accepted eng k opts"
    and "records (store w) (keyPrefix eng @ trim k) = Some (Committed F res c)"
    and "F' \<noteq> F"
  shows "fst (execute MemoryStore eng k F' h opts w)
           = Inl (new_FingerprintMismatchError
                    (''Fingerprint mismatch for key '' @ k @ '' '' @ en_dash
                       @ '' possible replay attack or key reuse with different payload'')
                    None)
       \<and> handler_calls (snd (execute MemoryStore eng k F' h opts w)) = handler_calls w
       \<and> map (\<lambda>c. ev_storedFingerprint (snd c))
             (new_calls w (snd (execute MemoryStore eng k F' h opts w))) = [Some (JStr F)]"
  using assms
  by (simp add: execute_accepted Let_def MemoryStore_def mem_atomicCheckAndLock_def
        handler_calls_audit new_calls_def sink_calls_audit safeEvent_def make_event_def)

theorem mismatch_error_without_stored_fingerprint_witness:
  "accepted test_engine ''k2'' no_options
   \<and> records (store (start committed_memory)) (keyPrefix test_engine @ trim ''k2'')
       = Some (Committed ''aaa'' success epoch)
   \<and> (case fst (execute MemoryStore test_engine ''k2'' ''bbb'' (Resolves success) no_options
                  (start committed_memory)) of
         Inl e \<Rightarrow> err_class e = FingerprintMismatchError \<and> err_storedFingerprint e = None
       | Inr v \<Rightarrow> False)"
proof -
  have a: "accepted test_engine ''k2'' no_options"
    by (simp add: accepted_def trim_def strip_done lead_length_def white_space_def
          test_engine_def no_options_def)
  have b: "records (store (start committed_memory)) (keyPrefix test_engine @ trim ''k2'')
       = Some (Committed ''aaa'' success epoch)"
    by (simp add: start_def committed_memory_def test_engine_def trim_def strip_done
          lead_length_def white_space_def)
  have c: "''bbb'' \<noteq> ''aaa''" by simp
  from mismatch_error_without_stored_fingerprint [OF a b c, of "Resolves success"] a b
  show ?thesis by (simp add: new_FingerprintMismatchError_def)
qed

subsection \<open>The audit callback fails\<close>

text \<open>
  C8 says that every audit emission invokes the active callback and, when the store has
  \<open>recordAudit\<close>, invokes that too with the same event, and that no failure of either
  reaches the caller. The callback is invoked, and nothing it throws leaves the
  dispatcher; but when it throws, \<open>recordAudit\<close> is not invoked: the in-memory store's
  audit log stays as it was.
\<close>

theorem throwing_callback_skips_recordAudit:
  assumes "sink_throws a (safeEvent ev)"
  shows "sink_calls (audit MemoryStore ev a w) = sink_calls w @ [(sink_name a, safeEvent ev)]
       \<and> auditLog (store (audit MemoryStore ev a w)) = auditLog (store w)"
  using assms by (simp add: audit_def Let_def)

theorem throwing_callback_skips_recordAudit_witness:
  "sink_throws throwingAudit (safeEvent (make_event (start new_MemoryStore) ''k1'' Acquired
       (Some ''fp'') None None))
   \<and> auditLog (store (audit MemoryStore
         (make_event (start new_MemoryStore) ''k1'' Acquired (Some ''fp'') None None)
         throwingAudit (start new_MemoryStore))) = []
   \<and> fst (execute MemoryStore test_engine ''k1'' ''fp'' (Resolves success)
            (no_options\<lparr>call_onAudit := Some throwingAudit\<rparr>) (start new_MemoryStore))
       = Inr success
   \<and> trail (start new_MemoryStore)
        (snd (execute MemoryStore test_engine ''k1'' ''fp'' (Resolves success)
                (no_options\<lparr>call_onAudit := Some throwingAudit\<rparr>) (start new_MemoryStore)))
       = [Acquired, Stored, Lock_released]
   \<and> auditLog (store
        (snd (execute MemoryStore test_engine ''k1'' ''fp'' (Resolves success)
                (no_options\<lparr>call_onAudit := Some throwingAudit\<rparr>) (start new_MemoryStore))))
       = []"
proof -
  have a: "sink_throws throwingAudit (safeEvent (make_event (start new_MemoryStore) ''k1''
       Acquired (Some ''fp'') None None))"
    by (simp add: throwingAudit_def)
  have b: "auditLog (store (start new_MemoryStore)) = []"
    by (simp add: start_def new_MemoryStore_def)
  have c: "fst (execute MemoryStore test_engine ''k1'' ''fp'' (Resolves success)
            (no_options\<lparr>call_onAudit := Some throwingAudit\<rparr>) (start new_MemoryStore))
       = Inr success"
    by code_simp
  have d: "trail (start new_MemoryStore)
        (snd (execute MemoryStore test_engine ''k1'' ''fp'' (Resolves success)
                (no_options\<lparr>call_onAudit := Some throwingAudit\<rparr>) (start new_MemoryStore)))
       = [Acquired, Stored, Lock_released]"
    by code_simp
  have e: "auditLog (store
        (snd (execute MemoryStore test_engine ''k1'' ''fp'' (Resolves success)
                (no_options\<lparr>call_onAudit := Some throwingAudit\<rparr>) (start new_MemoryStore))))
       = []"
    by code_simp
  from throwing_callback_skips_recordAudit [OF a, of "start new_MemoryStore"] a b c d e
  show ?thesis by simp
qed

text \<open>
  With a callback that does not throw, the store's \<open>recordAudit\<close> receives the same
  redacted event.
\<close>

lemma quiet_callback_reaches_recordAudit:
  assumes "\<not> sink_throws a (safeEvent ev)"
  shows "auditLog (store (audit MemoryStore ev a w)) = auditLog (store w) @ [safeEvent ev]"
  using assms by (simp add: audit_def Let_def MemoryStore_def mem_recordAudit_def)

subsection \<open>The Redis scripts\<close>

text \<open>
  C3 says that whenever \<open>atomicCheckAndLock\<close> returns \<open>acquired\<close> a processing record
  has been installed, a corrupt record being overwritten, so that a second probe cannot
  return \<open>acquired\<close> too. The script \<open>CHECK_AND_LOCK\<close> answers \<open>acquired\<close> for a
  value it cannot decode and writes nothing: the value stays, and every later probe is
  answered \<open>acquired\<close> as well.
\<close>

theorem corrupt_record_acquired_without_lock:
  assumes "d k = Some (Malformed t, px)"
  shows "CHECK_AND_LOCK k ttl now d = (Inr Status_acquired, d)"
  using assms by (simp add: CHECK_AND_LOCK_def)

theorem corrupt_record_acquired_without_lock_witness:
  "db corrupt_redis ''idemp:test-key'' = Some (Malformed ''{\"status\":\"proce'', None)
   \<and> CHECK_AND_LOCK ''idemp:test-key'' 5000 epoch (db corrupt_redis)
       = (Inr Status_acquired, db corrupt_redis)
   \<and> fst (redis_atomicCheckAndLock ''idemp:test-key'' ''fp123'' 5000 corrupt_redis)
       = Inr Status_acquired
   \<and> fst (redis_atomicCheckAndLock ''idemp:test-key'' ''fp123'' 5000
            (snd (redis_atomicCheckAndLock ''idemp:test-key'' ''fp123'' 5000 corrupt_redis)))
       = Inr Status_acquired"
proof -
  have a: "db corrupt_redis ''idemp:test-key'' = Some (Malformed ''{\"status\":\"proce'', None)"
    by (simp add: corrupt_redis_def)
  have b: "fst (redis_atomicCheckAndLock ''idemp:test-key'' ''fp123'' 5000 corrupt_redis)
       = Inr Status_acquired"
    by code_simp
  have c: "fst (redis_atomicCheckAndLock ''idemp:test-key'' ''fp123'' 5000
            (snd (redis_atomicCheckAndLock ''idemp:test-key'' ''fp123'' 5000 corrupt_redis)))
       = Inr Status_acquired"
    by code_simp
  from corrupt_record_acquired_without_lock
         [where d = "db corrupt_redis" and k = "''idemp:test-key''" and ttl = 5000
            and now = epoch, OF a] a b c
  show ?thesis by simp
qed

text \<open>
  C4 says that \<open>releaseLock\<close> removes at most a processing record and leaves a committed
  record unchanged. The in-memory store does so (\<open>mem_releaseLock_committed\<close>); the
  Redis adapter unlinks the key whatever it holds, and a committed record is gone.
\<close>

theorem redis_releaseLock_removes_committed:
  assumes "fault r = None"
    and "db r k = Some (Json (JObj [(''status'', JStr ''committed''), (''fingerprint'', JStr F),
                                   (''result'', res), (''createdAt'', JStr c)]), px)"
  shows "db (snd (redis_releaseLock k r)) k = None"
  using assms by (simp add: redis_releaseLock_def)

theorem redis_releaseLock_removes_committed_witness:
  "fault committed_redis = None
   \<and> db committed_redis ''idemp:test-key''
       = Some (Json (JObj [(''status'', JStr ''committed''), (''fingerprint'', JStr ''fp123''),
                           (''result'', JObj [(''paymentId'', JStr ''pay_123'')]),
                           (''createdAt'', JStr epoch)]), Some 10000)
   \<and> db (snd (redis_releaseLock ''idemp:test-key'' committed_redis)) ''idemp:test-key'' = None"
proof -
  have a: "fault committed_redis = None"
    by (simp add: committed_redis_def new_Redis_def)
  have b: "db committed_redis ''idemp:test-key''
       = Some (Json (JObj [(''status'', JStr ''committed''), (''fingerprint'', JStr ''fp123''),
                           (''result'', JObj [(''paymentId'', JStr ''pay_123'')]),
                           (''createdAt'', JStr epoch)]), Some 10000)"
    by (simp add: committed_redis_def)
  from redis_releaseLock_removes_committed
         [where r = committed_redis and k = "''idemp:test-key''", OF a b] a b
  show ?thesis by simp
qed

text \<open>
  What follows for the engine on the Redis adapter: the \<open>finally\<close> block of a
  successful call releases the lock after the commit, the record is gone, and a duplicate
  call runs the handler again.
\<close>

lemma redis_duplicate_runs_handler_again:
  "fst (execute RedisAdapter test_engine ''k1'' ''fp'' (Resolves success) no_options
          (snd (execute RedisAdapter test_engine ''k1'' ''fp'' (Resolves success) no_options
                  (start new_Redis)))) = Inr success
   \<and> handler_calls
        (snd (execute RedisAdapter test_engine ''k1'' ''fp'' (Resolves success) no_options
                (snd (execute RedisAdapter test_engine ''k1'' ''fp'' (Resolves success)
                        no_options (start new_Redis))))) = 2
   \<and> trail (start new_Redis)
        (snd (execute RedisAdapter test_engine ''k1'' ''fp'' (Resolves success) no_options
                (snd (execute RedisAdapter test_engine ''k1'' ''fp'' (Resolves success)
                        no_options (start new_Redis)))))
       = [Acquired, Stored, Lock_released, Acquired, Stored, Lock_released]"
  by code_simp

subsection \<open>Failures of the store\<close>




text \<open>
  On the adapter's corrupted value the probe answers \<open>acquired\<close>, the handler runs, the
  commit is refused, and \<open>error\<close> is audited.
\<close>

lemma corrupt_record_run:
  "handler_calls
     (snd (execute RedisAdapter test_engine ''idemp:test-key'' ''fp123'' (Resolves success)
             no_options (start corrupt_redis))) = 1
   \<and> trail (start corrupt_redis)
        (snd (execute RedisAdapter test_engine ''idemp:test-key'' ''fp123'' (Resolves success)
                no_options (start corrupt_redis)))
       = [Acquired, Error, Lock_released]"
  by code_simp

subsection \<open>Fingerprints and the order of keys\<close>

text \<open>
  C5, as stated: payloads that differ only in the insertion order of mapping keys have the
  same fingerprint, and the canonical form has its keys in lexicographic, locale-agnostic
  ascending order. The second part fails. The keys are compared with \<open>localeCompare\<close>,
  the collation of the host's locale; and \<open>Object.fromEntries\<close> builds an ordinary
  object, which lists array-index keys first, in numeric order. On the keys \<open>9\<close> and
  \<open>10\<close>, even a host that collates by the bytes, which puts \<open>10\<close> first, gives a
  canonical form with \<open>9\<close> first.
\<close>

theorem key_order_counterexample:
  "normalize_value lexicographic_compare (JObj [(''9'', JBool False), (''10'', JBool True)])
     = JObj [(''9'', JBool False), (''10'', JBool True)]
   \<and> json_text (normalize_value lexicographic_compare
                   (JObj [(''9'', JBool False), (''10'', JBool True)]))
       = ''{\"9\":false,\"10\":true}''
   \<and> lexicographic_compare ''10'' ''9'' < 0
   \<and> \<not> lexicographic [''9'', ''10'']"
  by code_simp

text \<open>
  C5, as amended: for payloads \<open>p\<close> and \<open>p'\<close> that differ only in the insertion order
  of mapping keys at any depth, \<open>fingerprint(p)\<close> and \<open>fingerprint(p')\<close> are the same,
  provided the host's \<open>localeCompare\<close> orders the keys of \<open>p\<close> (it is a consistent
  comparator and reports no two different keys as equal); the canonical form lists, in
  every mapping, the array-index keys first in ascending numeric order and then the other
  keys in the ascending order of \<open>localeCompare\<close>.
\<close>

theorem fingerprint_key_order:
  assumes "reordered p p'" and "orders (localeCompare h) (keys_of p)"
  shows "fingerprint h algorithm p = fingerprint h algorithm p'
       \<and> canonical (localeCompare h) (normalize_value (localeCompare h) p)"
  using normalize_reordered [OF assms] canonical_reordered [OF assms]
  by (simp add: fingerprint_def)

theorem fingerprint_key_order_witness:
  "reordered
     (JObj [(''user'', JObj [(''id'', JStr ''123''), (''name'', JStr ''Alice'')]),
            (''amount'', JNum 100)])
     (JObj [(''amount'', JNum 100),
            (''user'', JObj [(''name'', JStr ''Alice''), (''id'', JStr ''123'')])])
   \<and> orders (localeCompare test_host)
        (keys_of (JObj [(''user'', JObj [(''id'', JStr ''123''), (''name'', JStr ''Alice'')]),
                        (''amount'', JNum 100)]))
   \<and> fingerprint test_host ''sha256''
        (JObj [(''user'', JObj [(''id'', JStr ''123''), (''name'', JStr ''Alice'')]),
               (''amount'', JNum 100)])
       = fingerprint test_host ''sha256''
           (JObj [(''amount'', JNum 100),
                  (''user'', JObj [(''name'', JStr ''Alice''), (''id'', JStr ''123'')])])
   \<and> normalize_value (localeCompare test_host)
        (JObj [(''user'', JObj [(''id'', JStr ''123''), (''name'', JStr ''Alice'')]),
               (''amount'', JNum 100)])
       = JObj [(''amount'', JNum 100),
               (''user'', JObj [(''id'', JStr ''123''), (''name'', JStr ''Alice'')])]"
proof -
  have inner: "reordered (JObj [(''id'', JStr ''123''), (''name'', JStr ''Alice'')])
                 (JObj [(''name'', JStr ''Alice''), (''id'', JStr ''123'')])"
    by (rule reordered.object
          [where fs' = "[(''id'', JStr ''123''), (''name'', JStr ''Alice'')]"])
       (simp_all add: reordered.atom)
  have a: "reordered
     (JObj [(''user'', JObj [(''id'', JStr ''123''), (''name'', JStr ''Alice'')]),
            (''amount'', JNum 100)])
     (JObj [(''amount'', JNum 100),
            (''user'', JObj [(''name'', JStr ''Alice''), (''id'', JStr ''123'')])])"
    by (rule reordered.object
          [where fs' = "[(''user'', JObj [(''name'', JStr ''Alice''), (''id'', JStr ''123'')]),
                         (''amount'', JNum 100)]"])
       (simp_all add: reordered.atom inner)
  have b: "orders (localeCompare test_host)
        (keys_of (JObj [(''user'', JObj [(''id'', JStr ''123''), (''name'', JStr ''Alice'')]),
                        (''amount'', JNum 100)]))"
    by code_simp
  have c: "normalize_value (localeCompare test_host)
        (JObj [(''user'', JObj [(''id'', JStr ''123''), (''name'', JStr ''Alice'')]),
               (''amount'', JNum 100)])
       = JObj [(''amount'', JNum 100),
               (''user'', JObj [(''id'', JStr ''123''), (''name'', JStr ''Alice'')])]"
    by code_simp
  from fingerprint_key_order [OF a b, of "''sha256''"] a b c
  show ?thesis by blast
qed

end
